theory Spec2Isabelle
  imports Main "HOL-Library.AList" "HOL-Library.Char_ord" "HOL-Library.List_Lexorder"
begin

section \<open>Python values\<close>

text \<open>
  The case tables of \<^verbatim>\<open>ezvals/cases.py\<close> are dynamically typed: \<^verbatim>\<open>cases: Any\<close>, and a case is a
  \<^verbatim>\<open>Dict[str, Any]\<close>. The values of the embedding are \<^verbatim>\<open>None\<close>, booleans, integers, strings, lists,
  dictionaries with string keys (the key type the source annotates) and \<open>VObj\<close>, an object of a
  class that defines none of \<^verbatim>\<open>__eq__\<close>, \<^verbatim>\<open>__bool__\<close>, \<^verbatim>\<open>__len__\<close>, \<^verbatim>\<open>__iter__\<close> (a function, for example),
  named by its identity. Tuples and floats are not in the universe.

  A dictionary is an association list in insertion order; a Python dictionary has no
  repeated key.
\<close>

datatype pyval =
    VNone
  | VBool bool
  | VInt int
  | VStr string
  | VList "pyval list"
  | VDict "(string \<times> pyval) list"
  | VObj nat

type_synonym pydict = "(string \<times> pyval) list"

text \<open>
  \<open>ValueError\<close> carries its message. \<open>Unmodelled\<close> marks an input on which the embedding does
  not follow the interpreter: \<^verbatim>\<open>dict.update\<close> with a non-empty list (its pairs may have keys that
  are not strings), and an address that is not in the store.
\<close>

datatype error = ValueError string | TypeError | Unmodelled

subsection \<open>Built-ins the source calls\<close>

text \<open>\<^verbatim>\<open>bool(x)\<close>, as \<^verbatim>\<open>if x:\<close> and \<^verbatim>\<open>x or y\<close> test it.\<close>

fun py_truthy :: "pyval \<Rightarrow> bool" where
  "py_truthy VNone = False"
| "py_truthy (VBool b) = b"
| "py_truthy (VInt i) = (i \<noteq> 0)"
| "py_truthy (VStr s) = (s \<noteq> [])"
| "py_truthy (VList xs) = (xs \<noteq> [])"
| "py_truthy (VDict d) = (d \<noteq> [])"
| "py_truthy (VObj a) = True"

text \<open>
  \<^verbatim>\<open>x == y\<close>: \<^verbatim>\<open>True == 1\<close> holds, lists compare element by element, dictionaries compare as
  mappings (the order of insertion does not count), objects by identity.
\<close>

fun py_eq :: "pyval \<Rightarrow> pyval \<Rightarrow> bool"
  and py_eq_list :: "pyval list \<Rightarrow> pyval list \<Rightarrow> bool"
  and py_eq_items :: "(string \<times> pyval) list \<Rightarrow> (string \<times> pyval) list \<Rightarrow> bool"
where
  "py_eq VNone y = (y = VNone)"
| "py_eq (VBool a) y = (case y of VBool b \<Rightarrow> a = b | VInt j \<Rightarrow> (if a then 1 else 0) = j | _ \<Rightarrow> False)"
| "py_eq (VInt i) y = (case y of VInt j \<Rightarrow> i = j | VBool b \<Rightarrow> i = (if b then 1 else 0) | _ \<Rightarrow> False)"
| "py_eq (VStr s) y = (y = VStr s)"
| "py_eq (VList xs) y = (case y of VList ys \<Rightarrow> py_eq_list xs ys | _ \<Rightarrow> False)"
| "py_eq (VDict d) y = (case y of VDict e \<Rightarrow> length d = length e \<and> py_eq_items d e | _ \<Rightarrow> False)"
| "py_eq (VObj a) y = (y = VObj a)"
| "py_eq_list [] ys = (ys = [])"
| "py_eq_list (x # xs) ys = (case ys of [] \<Rightarrow> False | y # ys' \<Rightarrow> py_eq x y \<and> py_eq_list xs ys')"
| "py_eq_items [] e = True"
| "py_eq_items ((k, v) # r) e =
     ((case map_of e k of None \<Rightarrow> False | Some w \<Rightarrow> py_eq v w) \<and> py_eq_items r e)"

text \<open>\<^verbatim>\<open>x in xs\<close> for a list \<open>xs\<close>.\<close>

definition py_in :: "pyval \<Rightarrow> pyval list \<Rightarrow> bool" where
  "py_in x xs = list_ex (\<lambda>e. py_eq e x) xs"

text \<open>
  \<^verbatim>\<open>list(x)\<close>: a copy of a list, the characters of a string, the keys of a dictionary;
  \<^verbatim>\<open>TypeError\<close> for a value that is not iterable.
\<close>

fun py_list :: "pyval \<Rightarrow> error + pyval list" where
  "py_list (VList xs) = Inr xs"
| "py_list (VStr s) = Inr (map (\<lambda>c. VStr [c]) s)"
| "py_list (VDict d) = Inr (map (\<lambda>kv. VStr (fst kv)) d)"
| "py_list VNone = Inl TypeError"
| "py_list (VBool b) = Inl TypeError"
| "py_list (VInt i) = Inl TypeError"
| "py_list (VObj a) = Inl TypeError"

text \<open>Decimal digits of a natural number and of an integer, as \<^verbatim>\<open>str\<close> and f-strings print them.\<close>

definition digit_char :: "nat \<Rightarrow> char" where
  "digit_char d = char_of (48 + d)"

fun show_nat :: "nat \<Rightarrow> string" where
  "show_nat n = (if n < 10 then [digit_char n] else show_nat (n div 10) @ [digit_char (n mod 10)])"

declare show_nat.simps [simp del]

definition show_int :: "int \<Rightarrow> string" where
  "show_int i = (if i < 0 then CHR ''-'' # show_nat (nat (- i)) else show_nat (nat i))"

text \<open>
  \<^verbatim>\<open>str(x)\<close>. For a list, a dictionary and an object the result is the \<^verbatim>\<open>repr\<close> of the
  interpreter or of the object's class; it is the parameter \<open>repr\<close>.
\<close>

fun py_str :: "(pyval \<Rightarrow> string) \<Rightarrow> pyval \<Rightarrow> string" where
  "py_str repr VNone = ''None''"
| "py_str repr (VBool b) = (if b then ''True'' else ''False'')"
| "py_str repr (VInt i) = show_int i"
| "py_str repr (VStr s) = s"
| "py_str repr v = repr v"

text \<open>\<^verbatim>\<open>sep.join(xs)\<close> for a list of strings.\<close>

fun join :: "string \<Rightarrow> string list \<Rightarrow> string" where
  "join sep [] = []"
| "join sep [x] = x"
| "join sep (x # y # ys) = x @ sep @ join sep (y # ys)"

text \<open>\<^verbatim>\<open>d.get(k)\<close>, \<^verbatim>\<open>k in d\<close> and \<^verbatim>\<open>d.update(other)\<close> on dictionaries.\<close>

definition dict_get :: "pydict \<Rightarrow> string \<Rightarrow> pyval" where
  "dict_get d k = (case map_of d k of None \<Rightarrow> VNone | Some v \<Rightarrow> v)"

definition has_key :: "string \<Rightarrow> pydict \<Rightarrow> bool" where
  "has_key k d = (k \<in> set (map fst d))"

definition dict_update :: "pydict \<Rightarrow> pydict \<Rightarrow> pydict" where
  "dict_update m other = fold (\<lambda>kv acc. AList.update (fst kv) (snd kv) acc) other m"

text \<open>The entries of a value that is a dictionary; none for any other value.\<close>

definition entries_of :: "pyval \<Rightarrow> pydict" where
  "entries_of v = (case v of VDict d \<Rightarrow> d | _ \<Rightarrow> [])"

section \<open>Normalising a case declaration\<close>

record CaseBlock =
  case_sets :: "pydict list"
  case_ids :: "string option list"

definition RESERVED_CASE_KEYS :: "string set" where
  "RESERVED_CASE_KEYS =
     {''input'', ''reference'', ''metadata'', ''dataset'', ''labels'',
      ''default_score_key'', ''timeout'', ''target'', ''evaluators''}"

text \<open>
  The body of the loop of \<^verbatim>\<open>normalize_cases\<close> for one dictionary: the copy
  \<^verbatim>\<open>case_dict = dict(case)\<close>, \<^verbatim>\<open>case_dict.pop("id", None)\<close> and the set of unknown keys.
\<close>

definition pop_id :: "pydict \<Rightarrow> pyval \<times> pydict" where
  "pop_id case_dict = (dict_get case_dict ''id'', AList.delete ''id'' case_dict)"

definition unknown_keys :: "pydict \<Rightarrow> string set" where
  "unknown_keys case_dict = set (map fst case_dict) - RESERVED_CASE_KEYS"

definition stringify_id :: "(pyval \<Rightarrow> string) \<Rightarrow> pyval \<Rightarrow> string option" where
  "stringify_id repr case_id = (if case_id = VNone then None else Some (py_str repr case_id))"

text \<open>
  The loop \<^verbatim>\<open>for idx, case in enumerate(cases)\<close>, with the two lists it appends to. The
  identifier is appended before the keys are checked, as in the source.
\<close>

fun normalize_loop ::
  "(pyval \<Rightarrow> string) \<Rightarrow> nat \<Rightarrow> pyval list \<Rightarrow> pydict list \<Rightarrow> string option list \<Rightarrow> error + CaseBlock"
where
  "normalize_loop repr idx [] sets ids = Inr \<lparr>case_sets = sets, case_ids = ids\<rparr>"
| "normalize_loop repr idx (c # rest) sets ids =
     (case c of
        VDict d \<Rightarrow>
          (let (case_id, case_dict) = pop_id d;
               ids' = ids @ [stringify_id repr case_id];
               unknown = unknown_keys case_dict
           in if unknown \<noteq> {}
              then Inl (ValueError (''Unknown case keys: '' @ join '', '' (sorted_list_of_set unknown)))
              else normalize_loop repr (Suc idx) rest (sets @ [case_dict]) ids')
      | _ \<Rightarrow> Inl (ValueError (''Case '' @ show_nat idx @ '' must be a dict'')))"

definition normalize_cases :: "(pyval \<Rightarrow> string) \<Rightarrow> pyval \<Rightarrow> error + CaseBlock option" where
  "normalize_cases repr cases =
     (case cases of
        VNone \<Rightarrow> Inr None
      | VList cs \<Rightarrow>
          (case normalize_loop repr 0 cs [] [] of Inl e \<Rightarrow> Inl e | Inr block \<Rightarrow> Inr (Some block))
      | _ \<Rightarrow> Inl (ValueError ''cases must be a list of dicts''))"

section \<open>Function objects and the case marker\<close>

text \<open>
  A plain function: its \<^verbatim>\<open>__name__\<close>, whether \<^verbatim>\<open>inspect.iscoroutinefunction\<close> holds, whether a
  parameter is annotated with \<^verbatim>\<open>EvalContext\<close>, and the marker: the attributes \<^verbatim>\<open>__case_sets__\<close>
  and \<^verbatim>\<open>__case_ids__\<close>, which \<^verbatim>\<open>apply_cases\<close> sets together (\<open>None\<close>: the attributes are absent).
\<close>

record pyfunc =
  fn_name :: string
  fn_is_coroutine :: bool
  fn_ctx_annotated :: bool
  fn_marker :: "CaseBlock option"

text \<open>
  What \<^verbatim>\<open>generate_eval_functions\<close> reads from an \<^verbatim>\<open>EvalFunction\<close> (the class is declared in
  \<^verbatim>\<open>ezvals/decorators.py\<close>): the attributes named in the source. The two provenance
  attributes are read with \<^verbatim>\<open>getattr(..., None)\<close>, so they may be absent (\<open>None\<close> here).
\<close>

record eval_settings =
  es_func :: pyfunc
  es_marker :: "CaseBlock option"
  es_dataset :: pyval
  es_labels :: pyval
  es_evaluators :: pyval
  es_target :: pyval
  es_timeout :: pyval
  es_context_kwargs :: pydict
  es_context_param :: pyval
  es_provided_labels :: "pyval option"
  es_provided_evaluators :: "pyval option"

datatype callable = Raw pyfunc | Decorated eval_settings

definition set_marker :: "CaseBlock \<Rightarrow> callable \<Rightarrow> callable" where
  "set_marker block func =
     (case func of
        Raw f \<Rightarrow> Raw (f\<lparr>fn_marker := Some block\<rparr>)
      | Decorated es \<Rightarrow> Decorated (es\<lparr>es_marker := Some block\<rparr>))"

definition apply_cases :: "(pyval \<Rightarrow> string) \<Rightarrow> callable \<Rightarrow> pyval \<Rightarrow> error + callable" where
  "apply_cases repr func cases =
     (case normalize_cases repr cases of
        Inl e \<Rightarrow> Inl e
      | Inr None \<Rightarrow> Inr func
      | Inr (Some block) \<Rightarrow> Inr (set_marker block func))"

section \<open>Merging one case into the base settings\<close>

text \<open>\<^verbatim>\<open>merged.update(x)\<close> for a value \<open>x\<close> that the caller has found truthy or not.\<close>

fun update_with :: "pydict \<Rightarrow> pyval \<Rightarrow> error + pydict" where
  "update_with m (VDict d) = Inr (dict_update m d)"
| "update_with m (VStr s) =
     (if s = [] then Inr m
      else Inl (ValueError ''dictionary update sequence element #0 has length 1; 2 is required''))"
| "update_with m (VList xs) = (if xs = [] then Inr m else Inl Unmodelled)"
| "update_with m VNone = Inl TypeError"
| "update_with m (VBool b) = Inl TypeError"
| "update_with m (VInt i) = Inl TypeError"
| "update_with m (VObj a) = Inl TypeError"

definition merge_metadata :: "pyval \<Rightarrow> pyval \<Rightarrow> error + pyval" where
  "merge_metadata base override =
     (if override = VNone then Inr VNone
      else
        (case (if py_truthy base then update_with [] base else Inr []) of
           Inl e \<Rightarrow> Inl e
         | Inr merged \<Rightarrow>
             (case (if py_truthy override then update_with merged override else Inr merged) of
                Inl e \<Rightarrow> Inl e
              | Inr merged' \<Rightarrow> Inr (if merged' \<noteq> [] then VDict merged' else VNone))))"

definition merge_labels :: "pyval list \<Rightarrow> pyval list option \<Rightarrow> pyval list" where
  "merge_labels base override =
     (case override of
        None \<Rightarrow> []
      | Some ov \<Rightarrow> base @ filter (\<lambda>l. \<not> py_in l base) ov)"

section \<open>Generating the evaluation units\<close>

text \<open>
  The wrapper defined in the loop: its name, which of the four variants it is, and the
  function it forwards to.
\<close>

record wrapper =
  w_name :: string
  w_takes_ctx :: bool
  w_is_async :: bool
  w_base :: pyfunc

text \<open>The keyword arguments of the call \<^verbatim>\<open>EvalFunction(func=wrapper, dataset=dataset, ...)\<close>.\<close>

record eval_args =
  a_func :: wrapper
  a_dataset :: pyval
  a_labels :: "pyval list"
  a_evaluators :: pyval
  a_target :: pyval
  a_input :: pyval
  a_reference :: pyval
  a_default_score_key :: pyval
  a_metadata :: pyval
  a_timeout :: pyval

text \<open>
  An evaluation unit is the object that this call returns. The class \<^verbatim>\<open>EvalFunction\<close> is declared
  in \<^verbatim>\<open>ezvals/decorators.py\<close>, so its constructor is a parameter \<open>ctor\<close> of the embedding:
  \<open>ctor args\<close> is \<open>Some e\<close> when the call with the arguments \<open>args\<close> raises \<open>e\<close>, and \<open>None\<close> when it
  returns. A unit is known by the arguments it was made from and by the two attributes that
  the loop assigns to it after the call; the attributes that the constructor derives from its
  arguments are not part of the embedding. \<open>None\<close> in \<open>u_provided_labels\<close> or
  \<open>u_provided_evaluators\<close>: the loop assigned nothing, the attribute is as the constructor
  left it.
\<close>

record eval_unit =
  u_args :: eval_args
  u_provided_labels :: "pyval option"
  u_provided_evaluators :: "pyval option"

text \<open>\<^verbatim>\<open>list(eval_settings.labels or []) if eval_settings else []\<close>\<close>

definition base_labels_of :: "eval_settings option \<Rightarrow> error + pyval list" where
  "base_labels_of eval_settings =
     (case eval_settings of
        None \<Rightarrow> Inr []
      | Some es \<Rightarrow> py_list (if py_truthy (es_labels es) then es_labels es else VList []))"

text \<open>The branch on \<^verbatim>\<open>'labels' in case\<close>.\<close>

definition case_labels_of :: "pyval list \<Rightarrow> pydict \<Rightarrow> error + pyval list" where
  "case_labels_of base_labels c =
     (if has_key ''labels'' c then
        (let case_labels = dict_get c ''labels''
         in if case_labels = VNone \<or> py_eq case_labels (VList []) then Inr []
            else (case py_list case_labels of
                    Inl e \<Rightarrow> Inl e
                  | Inr ls \<Rightarrow> Inr (merge_labels base_labels (Some ls))))
      else Inr base_labels)"

text \<open>\<^verbatim>\<open>case.get(k) if k in case else base\<close>\<close>

definition override_or :: "pydict \<Rightarrow> string \<Rightarrow> pyval \<Rightarrow> pyval" where
  "override_or c k base = (if has_key k c then dict_get c k else base)"

text \<open>\<^verbatim>\<open>f"{base_func.__name__}[{test_id or idx}]"\<close>\<close>

definition func_name_of :: "string \<Rightarrow> string option \<Rightarrow> nat \<Rightarrow> string" where
  "func_name_of base_name test_id idx =
     base_name @ ''['' @
       (case test_id of
          None \<Rightarrow> show_nat idx
        | Some s \<Rightarrow> if s \<noteq> [] then s else show_nat idx) @ '']''"

text \<open>\<^verbatim>\<open>eval_settings.context_kwargs.get(k) if eval_settings else None\<close>\<close>

definition base_kwarg :: "eval_settings option \<Rightarrow> string \<Rightarrow> pyval" where
  "base_kwarg eval_settings k =
     (case eval_settings of Some es \<Rightarrow> dict_get (es_context_kwargs es) k | None \<Rightarrow> VNone)"

text \<open>
  The body of the loop over \<^verbatim>\<open>enumerate(case_sets)\<close>, up to the call of the constructor: the
  name and the wrapper, the base values, and the merged values that become the keyword
  arguments. An \<^verbatim>\<open>EvalFunction\<close> is truthy (an instance of a class is, unless the class defines
  \<^verbatim>\<open>__bool__\<close> or \<^verbatim>\<open>__len__\<close>), so \<^verbatim>\<open>if eval_settings\<close> is the test that there are settings.
\<close>

definition merge_args ::
  "eval_settings option \<Rightarrow> pyfunc \<Rightarrow> bool \<Rightarrow> bool \<Rightarrow> string option list \<Rightarrow> nat \<Rightarrow> pydict
     \<Rightarrow> error + eval_args"
where
  "merge_args eval_settings base_func has_context is_async ids idx c =
     (let test_id = (if ids \<noteq> [] \<and> idx < length ids then ids ! idx else None);
          func_name = func_name_of (fn_name base_func) test_id idx;
          wrapper = \<lparr>w_name = func_name, w_takes_ctx = has_context, w_is_async = is_async,
                     w_base = base_func\<rparr>;
          base_dataset = (case eval_settings of Some es \<Rightarrow> es_dataset es | None \<Rightarrow> VNone);
          base_target = (case eval_settings of Some es \<Rightarrow> es_target es | None \<Rightarrow> VNone);
          base_evaluators = (case eval_settings of Some es \<Rightarrow> es_evaluators es | None \<Rightarrow> VNone);
          base_timeout = (case eval_settings of Some es \<Rightarrow> es_timeout es | None \<Rightarrow> VNone);
          base_input = base_kwarg eval_settings ''input'';
          base_reference = base_kwarg eval_settings ''reference'';
          base_default_score_key = base_kwarg eval_settings ''default_score_key'';
          base_metadata = base_kwarg eval_settings ''metadata''
      in
        case base_labels_of eval_settings of
          Inl e \<Rightarrow> Inl e
        | Inr base_labels \<Rightarrow>
            (case case_labels_of base_labels c of
               Inl e \<Rightarrow> Inl e
             | Inr labels \<Rightarrow>
                 (case (if has_key ''metadata'' c
                        then merge_metadata base_metadata (dict_get c ''metadata'')
                        else Inr base_metadata) of
                    Inl e \<Rightarrow> Inl e
                  | Inr metadata \<Rightarrow>
                      (let evaluators =
                             (if has_key ''evaluators'' c
                              then (let case_evaluators = dict_get c ''evaluators''
                                    in if case_evaluators = VNone then VList [] else case_evaluators)
                              else base_evaluators)
                       in Inr \<lparr>a_func = wrapper,
                               a_dataset = override_or c ''dataset'' base_dataset,
                               a_labels = labels,
                               a_evaluators = evaluators,
                               a_target = override_or c ''target'' base_target,
                               a_input = override_or c ''input'' base_input,
                               a_reference = override_or c ''reference'' base_reference,
                               a_default_score_key =
                                 override_or c ''default_score_key'' base_default_score_key,
                               a_metadata = metadata,
                               a_timeout = override_or c ''timeout'' base_timeout\<rparr>))))"

text \<open>
  The rest of the body: the call of the constructor, which may raise, and the two
  assignments to \<^verbatim>\<open>_provided_labels\<close> and \<^verbatim>\<open>_provided_evaluators\<close>.
\<close>

definition merge_case ::
  "(eval_args \<Rightarrow> error option) \<Rightarrow> eval_settings option \<Rightarrow> pyfunc \<Rightarrow> bool \<Rightarrow> bool
     \<Rightarrow> string option list \<Rightarrow> nat \<Rightarrow> pydict \<Rightarrow> error + eval_unit"
where
  "merge_case ctor eval_settings base_func has_context is_async ids idx c =
     (case merge_args eval_settings base_func has_context is_async ids idx c of
        Inl e \<Rightarrow> Inl e
      | Inr args \<Rightarrow>
          (case ctor args of
             Some e \<Rightarrow> Inl e
           | None \<Rightarrow>
               (let provided_labels =
                      (case eval_settings of
                         Some es \<Rightarrow>
                           Some (case es_provided_labels es of None \<Rightarrow> VNone | Some v \<Rightarrow> v)
                       | None \<Rightarrow> None);
                    provided_evaluators =
                      (case eval_settings of
                         Some es \<Rightarrow>
                           Some (case es_provided_evaluators es of None \<Rightarrow> VNone | Some v \<Rightarrow> v)
                       | None \<Rightarrow> None)
                in Inr \<lparr>u_args = args,
                        u_provided_labels =
                          (if has_key ''labels'' c then Some (VList []) else provided_labels),
                        u_provided_evaluators =
                          (if has_key ''evaluators'' c then Some (VList [])
                           else provided_evaluators)\<rparr>)))"

fun generate_loop ::
  "(eval_args \<Rightarrow> error option) \<Rightarrow> eval_settings option \<Rightarrow> pyfunc \<Rightarrow> bool \<Rightarrow> bool
     \<Rightarrow> string option list \<Rightarrow> nat \<Rightarrow> pydict list \<Rightarrow> eval_unit list \<Rightarrow> error + eval_unit list"
where
  "generate_loop ctor es bf hc ia ids idx [] functions = Inr functions"
| "generate_loop ctor es bf hc ia ids idx (c # rest) functions =
     (case merge_case ctor es bf hc ia ids idx c of
        Inl e \<Rightarrow> Inl e
      | Inr eval_func \<Rightarrow>
          generate_loop ctor es bf hc ia ids (Suc idx) rest (functions @ [eval_func]))"

text \<open>
  \<^verbatim>\<open>hasattr(base_func, '__case_sets__')\<close>, then \<^verbatim>\<open>hasattr(func, '__case_sets__')\<close>; for a plain
  function both name the same object.
\<close>

definition find_marker :: "callable \<Rightarrow> CaseBlock option" where
  "find_marker func =
     (case func of
        Raw f \<Rightarrow> fn_marker f
      | Decorated es \<Rightarrow>
          (case fn_marker (es_func es) of Some block \<Rightarrow> Some block | None \<Rightarrow> es_marker es))"

text \<open>
  The first lines of \<^verbatim>\<open>generate_eval_functions\<close>: an \<^verbatim>\<open>EvalFunction\<close> is its own settings and
  wraps the base function; a plain function has no settings. Then the calling convention,
  from \<^verbatim>\<open>context_param\<close> when there are settings and from the signature otherwise.
\<close>

definition settings_of :: "callable \<Rightarrow> eval_settings option" where
  "settings_of func = (case func of Decorated es \<Rightarrow> Some es | Raw f \<Rightarrow> None)"

definition base_func_of :: "callable \<Rightarrow> pyfunc" where
  "base_func_of func = (case func of Decorated es \<Rightarrow> es_func es | Raw f \<Rightarrow> f)"

definition has_context_of :: "callable \<Rightarrow> bool" where
  "has_context_of func =
     (case settings_of func of
        Some es \<Rightarrow> es_context_param es \<noteq> VNone
      | None \<Rightarrow> fn_ctx_annotated (base_func_of func))"

definition generate_eval_functions ::
  "(eval_args \<Rightarrow> error option) \<Rightarrow> callable \<Rightarrow> error + eval_unit list"
where
  "generate_eval_functions ctor func =
     (case find_marker func of
        None \<Rightarrow>
          Inl (ValueError (''Function '' @ fn_name (base_func_of func) @
                           '' does not have __case_sets__ attribute''))
      | Some block \<Rightarrow>
          generate_loop ctor (settings_of func) (base_func_of func) (has_context_of func)
            (fn_is_coroutine (base_func_of func)) (case_ids block) 0 (case_sets block) [])"

section \<open>Normalisation with the caller's objects in a store\<close>

text \<open>
  To say what \<^verbatim>\<open>normalize_cases\<close> does to the objects of its caller, the objects live in a
  store: a list of values, an object's address being its position. The argument \<^verbatim>\<open>cases\<close> is
  \<^verbatim>\<open>None\<close>, a list of addresses, or something else. \<^verbatim>\<open>dict(case)\<close> allocates a new object at the
  end of the store, \<^verbatim>\<open>case_dict.pop("id", None)\<close> writes to the object \<^verbatim>\<open>case_dict\<close> names, and
  \<^verbatim>\<open>case_sets\<close> collects addresses. An address outside the store does not occur in a running
  program.
\<close>

type_synonym store = "pyval list"

datatype cases_arg = NoCases | CaseList "nat list" | NotAList

definition store_pop_id :: "nat \<Rightarrow> store \<Rightarrow> pyval \<times> store" where
  "store_pop_id p s =
     (case s ! p of
        VDict d \<Rightarrow> (dict_get d ''id'', s[p := VDict (AList.delete ''id'' d)])
      | _ \<Rightarrow> (VNone, s))"

definition store_keys :: "nat \<Rightarrow> store \<Rightarrow> string set" where
  "store_keys p s = (case s ! p of VDict d \<Rightarrow> set (map fst d) | _ \<Rightarrow> {})"

fun normalize_loop_st ::
  "(pyval \<Rightarrow> string) \<Rightarrow> nat \<Rightarrow> nat list \<Rightarrow> nat list \<Rightarrow> string option list \<Rightarrow> store
     \<Rightarrow> (error + nat list \<times> string option list) \<times> store"
where
  "normalize_loop_st repr idx [] sets ids s = (Inr (sets, ids), s)"
| "normalize_loop_st repr idx (a # rest) sets ids s =
     (if a < length s then
        (case s ! a of
           VDict d \<Rightarrow>
             (let case_dict = length s;
                  s1 = s @ [VDict d];
                  (case_id, s2) = store_pop_id case_dict s1;
                  ids' = ids @ [stringify_id repr case_id];
                  unknown = store_keys case_dict s2 - RESERVED_CASE_KEYS
              in if unknown \<noteq> {}
                 then (Inl (ValueError (''Unknown case keys: '' @
                                        join '', '' (sorted_list_of_set unknown))), s2)
                 else normalize_loop_st repr (Suc idx) rest (sets @ [case_dict]) ids' s2)
         | _ \<Rightarrow> (Inl (ValueError (''Case '' @ show_nat idx @ '' must be a dict'')), s))
      else (Inl Unmodelled, s))"

definition normalize_cases_st ::
  "(pyval \<Rightarrow> string) \<Rightarrow> cases_arg \<Rightarrow> store
     \<Rightarrow> (error + (nat list \<times> string option list) option) \<times> store"
where
  "normalize_cases_st repr cases s =
     (case cases of
        NoCases \<Rightarrow> (Inr None, s)
      | CaseList refs \<Rightarrow>
          (case normalize_loop_st repr 0 refs [] [] s of
             (Inl e, s') \<Rightarrow> (Inl e, s')
           | (Inr block, s') \<Rightarrow> (Inr (Some block), s'))
      | NotAList \<Rightarrow> (Inl (ValueError ''cases must be a list of dicts''), s))"

text \<open>The block that the collected addresses stand for in a store.\<close>

definition block_of :: "store \<Rightarrow> nat list \<times> string option list \<Rightarrow> CaseBlock" where
  "block_of s b = \<lparr>case_sets = map (\<lambda>p. entries_of (s ! p)) (fst b), case_ids = snd b\<rparr>"

section \<open>Resolving a run name in a session\<close>

text \<open>
  Modelled from the spec: \<^verbatim>\<open>_resolve_run_name_in_session\<close> of \<^verbatim>\<open>ezvals/cli.py\<close> and the
  \<^verbatim>\<open>ResultsStore\<close> of \<^verbatim>\<open>ezvals/storage.py\<close> are missing; only their test is present. The store is
  the list of its run records, and \<open>resolve\<close> follows section 4.6 of the specification:
  it scans the records of the session whose run name equals the query; no match is
  "not found" or an error when the run is required, one match is returned, two or more are
  an error.
\<close>

record RunRecord =
  run_id :: string
  session_name :: string
  run_name :: string

datatype resolve_error = NotFoundError string string | AmbiguousNameError string string

definition matching_runs :: "RunRecord list \<Rightarrow> string \<Rightarrow> string \<Rightarrow> RunRecord list" where
  "matching_runs runs session name =
     filter (\<lambda>r. session_name r = session \<and> run_name r = name) runs"

definition resolve ::
  "RunRecord list \<Rightarrow> string \<Rightarrow> string \<Rightarrow> bool \<Rightarrow> resolve_error + RunRecord option"
where
  "resolve runs session name required =
     (case matching_runs runs session name of
        [] \<Rightarrow> if required then Inl (NotFoundError session name) else Inr None
      | [r] \<Rightarrow> Inr (Some r)
      | _ \<Rightarrow> Inl (AmbiguousNameError session name))"

section \<open>Vocabulary of the properties\<close>

text \<open>
  The keys of one element of a declaration that are neither \<^verbatim>\<open>id\<close> nor reserved, and the
  message that lists a set of keys.
\<close>

definition offending_keys :: "pyval \<Rightarrow> string set" where
  "offending_keys c =
     (case c of VDict d \<Rightarrow> set (map fst d) - {''id''} - RESERVED_CASE_KEYS | _ \<Rightarrow> {})"

definition unknown_keys_message :: "string set \<Rightarrow> string" where
  "unknown_keys_message ks = ''Unknown case keys: '' @ join '', '' (sorted_list_of_set ks)"

text \<open>
  The types the source annotates for labels (\<^verbatim>\<open>Optional[List[str]]\<close>) and for metadata
  (\<^verbatim>\<open>Optional[Dict[str, Any]]\<close>), for a case and for the base settings.
\<close>

definition none_or_list :: "pyval \<Rightarrow> bool" where
  "none_or_list v = (case v of VNone \<Rightarrow> True | VList xs \<Rightarrow> True | _ \<Rightarrow> False)"

definition none_or_dict :: "pyval \<Rightarrow> bool" where
  "none_or_dict v = (case v of VNone \<Rightarrow> True | VDict d \<Rightarrow> True | _ \<Rightarrow> False)"

definition typed_case :: "pydict \<Rightarrow> bool" where
  "typed_case c = (none_or_list (dict_get c ''labels'') \<and> none_or_dict (dict_get c ''metadata''))"

definition typed_settings :: "eval_settings option \<Rightarrow> bool" where
  "typed_settings eval_settings =
     (case eval_settings of
        None \<Rightarrow> True
      | Some es \<Rightarrow> none_or_list (es_labels es) \<and> none_or_dict (dict_get (es_context_kwargs es) ''metadata''))"

text \<open>Projections of a result, and inputs for the concrete instances below.\<close>

definition unit_names :: "error + eval_unit list \<Rightarrow> error + string list" where
  "unit_names r = map_sum id (map (\<lambda>u. w_name (a_func (u_args u)))) r"

definition unit_labels :: "error + eval_unit list \<Rightarrow> error + pyval list list" where
  "unit_labels r = map_sum id (map (\<lambda>u. a_labels (u_args u))) r"

definition unit_metadata :: "error + eval_unit list \<Rightarrow> error + pyval list" where
  "unit_metadata r = map_sum id (map (\<lambda>u. a_metadata (u_args u))) r"

definition no_repr :: "pyval \<Rightarrow> string" where
  "no_repr v = ''<object>''"

text \<open>A constructor that raises on no arguments.\<close>

definition accepts_all :: "eval_args \<Rightarrow> error option" where
  "accepts_all args = None"

definition plain_f :: pyfunc where
  "plain_f = \<lparr>fn_name = ''f'', fn_is_coroutine = False, fn_ctx_annotated = False, fn_marker = None\<rparr>"

definition prod_settings :: eval_settings where
  "prod_settings =
     \<lparr>es_func = plain_f, es_marker = None, es_dataset = VNone, es_labels = VList [VStr ''prod''],
      es_evaluators = VNone, es_target = VNone, es_timeout = VInt 30,
      es_context_kwargs = [(''metadata'', VDict [(''j'', VInt 0)])],
      es_context_param = VNone, es_provided_labels = Some (VList [VStr ''prod'']),
      es_provided_evaluators = None\<rparr>"

text \<open>
  The example of the specification: base settings with the label \<^verbatim>\<open>prod\<close> and a timeout of 30,
  and its two cases, the second of which clears the labels (and, here, adds a metadata
  entry); a third case without \<^verbatim>\<open>id\<close> adds a label and sets the timeout to \<^verbatim>\<open>None\<close>.
\<close>

definition ex_cases :: "pydict list" where
  "ex_cases =
     [[(''id'', VStr ''a''), (''input'', VStr ''x'')],
      [(''id'', VStr ''b''), (''labels'', VList []), (''input'', VStr ''y''),
       (''metadata'', VDict [(''k'', VInt 1)])],
      [(''labels'', VList [VStr ''prod'', VStr ''y'']), (''timeout'', VNone)]]"

definition ex_block :: CaseBlock where
  "ex_block =
     \<lparr>case_sets =
        [[(''input'', VStr ''x'')],
         [(''labels'', VList []), (''input'', VStr ''y''), (''metadata'', VDict [(''k'', VInt 1)])],
         [(''labels'', VList [VStr ''prod'', VStr ''y'']), (''timeout'', VNone)]],
      case_ids = [Some ''a'', Some ''b'', None]\<rparr>"

definition ex_func :: callable where
  "ex_func = Decorated (prod_settings\<lparr>es_marker := Some ex_block\<rparr>)"

definition ex_units :: "eval_unit list" where
  "ex_units =
     [\<lparr>u_args =
         \<lparr>a_func = \<lparr>w_name = ''f[a]'', w_takes_ctx = False, w_is_async = False, w_base = plain_f\<rparr>,
          a_dataset = VNone, a_labels = [VStr ''prod''], a_evaluators = VNone, a_target = VNone,
          a_input = VStr ''x'', a_reference = VNone, a_default_score_key = VNone,
          a_metadata = VDict [(''j'', VInt 0)], a_timeout = VInt 30\<rparr>,
       u_provided_labels = Some (VList [VStr ''prod'']), u_provided_evaluators = Some VNone\<rparr>,
      \<lparr>u_args =
         \<lparr>a_func = \<lparr>w_name = ''f[b]'', w_takes_ctx = False, w_is_async = False, w_base = plain_f\<rparr>,
          a_dataset = VNone, a_labels = [], a_evaluators = VNone, a_target = VNone,
          a_input = VStr ''y'', a_reference = VNone, a_default_score_key = VNone,
          a_metadata = VDict [(''j'', VInt 0), (''k'', VInt 1)], a_timeout = VInt 30\<rparr>,
       u_provided_labels = Some (VList []), u_provided_evaluators = Some VNone\<rparr>,
      \<lparr>u_args =
         \<lparr>a_func = \<lparr>w_name = ''f[2]'', w_takes_ctx = False, w_is_async = False, w_base = plain_f\<rparr>,
          a_dataset = VNone, a_labels = [VStr ''prod'', VStr ''y''], a_evaluators = VNone,
          a_target = VNone, a_input = VNone, a_reference = VNone, a_default_score_key = VNone,
          a_metadata = VDict [(''j'', VInt 0)], a_timeout = VNone\<rparr>,
       u_provided_labels = Some (VList []), u_provided_evaluators = Some VNone\<rparr>]"





section \<open>Auxiliary facts\<close>

lemma unknown_keys_delete_id:
  "unknown_keys (AList.delete ''id'' d) = set (map fst d) - {''id''} - RESERVED_CASE_KEYS"
  by (auto simp: unknown_keys_def AList.delete_keys)

lemma normalize_loop_first_bad:
  assumes "find (\<lambda>d. offending_keys (VDict d) \<noteq> {}) ds = Some d"
  shows "normalize_loop repr idx (map VDict ds) sets ids =
           Inl (ValueError (unknown_keys_message (offending_keys (VDict d))))"
  using assms
proof (induction ds arbitrary: idx sets ids)
  case Nil
  then show ?case by simp
next
  case (Cons d' rest)
  show ?case
  proof (cases "offending_keys (VDict d') \<noteq> {}")
    case True
    with Cons.prems have "d' = d" by simp
    with True show ?thesis
      by (simp add: pop_id_def unknown_keys_delete_id offending_keys_def unknown_keys_message_def)
  next
    case False
    with Cons.prems have f: "find (\<lambda>d. offending_keys (VDict d) \<noteq> {}) rest = Some d" by simp
    from False have "unknown_keys (AList.delete ''id'' d') = {}"
      by (simp add: unknown_keys_delete_id offending_keys_def)
    with Cons.IH[OF f] show ?thesis
      by (simp add: pop_id_def)
  qed
qed

lemma normalize_loop_map_VDict:
  assumes "\<forall>d\<in>set ds. unknown_keys (AList.delete ''id'' d) = {}"
  shows "normalize_loop repr idx (map VDict ds) sets ids =
           Inr \<lparr>case_sets = sets @ map (AList.delete ''id'') ds,
                case_ids = ids @ map (\<lambda>d. stringify_id repr (dict_get d ''id'')) ds\<rparr>"
  using assms
  by (induction ds arbitrary: idx sets ids) (simp_all add: pop_id_def)

lemma normalize_loop_Inr:
  assumes "normalize_loop repr idx cs sets ids = Inr block"
  shows "\<exists>ds. cs = map VDict ds \<and> (\<forall>d\<in>set ds. unknown_keys (AList.delete ''id'' d) = {})"
  using assms
proof (induction cs arbitrary: idx sets ids)
  case Nil
  then show ?case by simp
next
  case (Cons c rest)
  from Cons.prems obtain d where c: "c = VDict d"
    by (cases c) simp_all
  from Cons.prems c have u: "unknown_keys (AList.delete ''id'' d) = {}"
    by (simp add: pop_id_def Let_def split: if_splits)
  with Cons.prems c have
    "normalize_loop repr (Suc idx) rest (sets @ [AList.delete ''id'' d])
       (ids @ [stringify_id repr (dict_get d ''id'')]) = Inr block"
    by (simp add: pop_id_def)
  from Cons.IH[OF this] obtain ds where
    "rest = map VDict ds" "\<forall>d\<in>set ds. unknown_keys (AList.delete ''id'' d) = {}" by blast
  with c u have
    "c # rest = map VDict (d # ds) \<and>
     (\<forall>d\<in>set (d # ds). unknown_keys (AList.delete ''id'' d) = {})"
    by simp
  then show ?case by (rule exI[of _ "d # ds"])
qed

text \<open>A declaration that normalises is a list of dictionaries, and the block is their image.\<close>

lemma normalize_cases_Some:
  assumes "normalize_cases repr (VList cs) = Inr (Some block)"
  shows "\<exists>ds. cs = map VDict ds \<and>
           case_sets block = map (AList.delete ''id'') ds \<and>
           case_ids block = map (\<lambda>d. stringify_id repr (dict_get d ''id'')) ds"
proof -
  from assms obtain b where b: "normalize_loop repr 0 cs [] [] = Inr b"
    by (auto simp: normalize_cases_def split: sum.splits)
  from normalize_loop_Inr[OF b] obtain ds where
    ds: "cs = map VDict ds" "\<forall>d\<in>set ds. unknown_keys (AList.delete ''id'' d) = {}" by blast
  from normalize_loop_map_VDict[OF ds(2), of repr 0 "[]" "[]"] assms ds(1)
  have "block = \<lparr>case_sets = map (AList.delete ''id'') ds,
                 case_ids = map (\<lambda>d. stringify_id repr (dict_get d ''id'')) ds\<rparr>"
    by (simp add: normalize_cases_def)
  with ds(1) show ?thesis by (intro exI[of _ ds]) simp
qed

section \<open>Unknown keys fail the whole declaration\<close>

text \<open>
  C1. Let the declaration be a list of dictionaries, and let some element have a key that
  is neither \<^verbatim>\<open>id\<close> nor reserved. Then \<^verbatim>\<open>normalize_cases\<close> raises the \<^verbatim>\<open>ValueError\<close> whose message
  lists, sorted and joined with a comma and a space, those keys of the first such element,
  whatever well-formed elements come before it. \<^verbatim>\<open>apply_cases\<close> raises the same error, so no
  function comes back carrying a case table, and there is nothing to generate units from.
\<close>

theorem normalize_cases_unknown_key:
  assumes "\<exists>d\<in>set ds. offending_keys (VDict d) \<noteq> {}"
  shows "\<exists>d. find (\<lambda>d. offending_keys (VDict d) \<noteq> {}) ds = Some d \<and>
           normalize_cases repr (VList (map VDict ds)) =
             Inl (ValueError (unknown_keys_message (offending_keys (VDict d)))) \<and>
           apply_cases repr func (VList (map VDict ds)) =
             Inl (ValueError (unknown_keys_message (offending_keys (VDict d))))"
proof -
  from assms obtain d where d: "find (\<lambda>d. offending_keys (VDict d) \<noteq> {}) ds = Some d"
    by (cases "find (\<lambda>d. offending_keys (VDict d) \<noteq> {}) ds") (auto simp: find_None_iff)
  from normalize_loop_first_bad[OF d]
  have "normalize_cases repr (VList (map VDict ds)) =
          Inl (ValueError (unknown_keys_message (offending_keys (VDict d))))"
    by (simp add: normalize_cases_def)
  with d show ?thesis by (simp add: apply_cases_def)
qed

theorem normalize_cases_unknown_key_witness:
  "(\<exists>d\<in>set [[(''input'', VInt 1)], [(''zoo'', VInt 1), (''id'', VInt 3), (''foo'', VInt 1)]].
      offending_keys (VDict d) \<noteq> {}) \<and>
   normalize_cases no_repr
     (VList [VDict [(''input'', VInt 1)],
             VDict [(''zoo'', VInt 1), (''id'', VInt 3), (''foo'', VInt 1)]]) =
     Inl (ValueError ''Unknown case keys: foo, zoo'') \<and>
   apply_cases no_repr (Raw plain_f)
     (VList [VDict [(''input'', VInt 1)],
             VDict [(''zoo'', VInt 1), (''id'', VInt 3), (''foo'', VInt 1)]]) =
     Inl (ValueError ''Unknown case keys: foo, zoo'')"
proof -
  have b: "\<exists>d\<in>set [[(''input'', VInt 1)], [(''zoo'', VInt 1), (''id'', VInt 3), (''foo'', VInt 1)]].
             offending_keys (VDict d) \<noteq> {}"
    by code_simp
  have f: "find (\<lambda>d. offending_keys (VDict d) \<noteq> {})
             [[(''input'', VInt 1)], [(''zoo'', VInt 1), (''id'', VInt 3), (''foo'', VInt 1)]]
           = Some [(''zoo'', VInt 1), (''id'', VInt 3), (''foo'', VInt 1)]"
    by code_simp
  have e: "unknown_keys_message (offending_keys
             (VDict [(''zoo'', VInt 1), (''id'', VInt 3), (''foo'', VInt 1)])) =
           ''Unknown case keys: foo, zoo''"
    by code_simp
  from normalize_cases_unknown_key[OF b, of no_repr "Raw plain_f"] obtain d where
    d: "find (\<lambda>d. offending_keys (VDict d) \<noteq> {})
          [[(''input'', VInt 1)], [(''zoo'', VInt 1), (''id'', VInt 3), (''foo'', VInt 1)]] = Some d"
    and r: "normalize_cases no_repr
              (VList (map VDict
                 [[(''input'', VInt 1)], [(''zoo'', VInt 1), (''id'', VInt 3), (''foo'', VInt 1)]])) =
            Inl (ValueError (unknown_keys_message (offending_keys (VDict d))))"
           "apply_cases no_repr (Raw plain_f)
              (VList (map VDict
                 [[(''input'', VInt 1)], [(''zoo'', VInt 1), (''id'', VInt 3), (''foo'', VInt 1)]])) =
            Inl (ValueError (unknown_keys_message (offending_keys (VDict d))))"
    by blast
  from d[unfolded f] have "d = [(''zoo'', VInt 1), (''id'', VInt 3), (''foo'', VInt 1)]"
    by simp
  with r e have
    "normalize_cases no_repr
       (VList [VDict [(''input'', VInt 1)],
               VDict [(''zoo'', VInt 1), (''id'', VInt 3), (''foo'', VInt 1)]]) =
     Inl (ValueError ''Unknown case keys: foo, zoo'')"
    "apply_cases no_repr (Raw plain_f)
       (VList [VDict [(''input'', VInt 1)],
               VDict [(''zoo'', VInt 1), (''id'', VInt 3), (''foo'', VInt 1)]]) =
     Inl (ValueError ''Unknown case keys: foo, zoo'')"
    by simp_all
  with b show ?thesis by blast
qed

section \<open>The examples and the loop over the cases\<close>

lemma ex_apply_cases:
  "apply_cases no_repr (Decorated prod_settings) (VList (map VDict ex_cases)) = Inr ex_func"
  by code_simp

lemma ex_normalize_cases:
  "normalize_cases no_repr (VList (map VDict ex_cases)) = Inr (Some ex_block)"
  by code_simp

lemma ex_find_marker: "find_marker ex_func = Some ex_block"
  by code_simp

lemma ex_generate: "generate_eval_functions accepts_all ex_func = Inr ex_units"
  by code_simp



text \<open>The loop returns exactly when the body returns for every case, with these units.\<close>

lemma generate_loop_iff:
  "generate_loop ctor es bf hc ia ids idx cs fs = Inr r \<longleftrightarrow>
     (\<exists>us. r = fs @ us \<and> length us = length cs \<and>
        (\<forall>j<length cs. merge_case ctor es bf hc ia ids (idx + j) (cs ! j) = Inr (us ! j)))"
proof (induction cs arbitrary: idx fs)
  case Nil
  then show ?case by auto
next
  case (Cons c rest)
  show ?case
  proof (cases "merge_case ctor es bf hc ia ids idx c")
    case (Inl e)
    then show ?thesis by auto
  next
    case (Inr u)
    have "(\<exists>us. r = (fs @ [u]) @ us \<and> length us = length rest \<and>
             (\<forall>j<length rest.
                merge_case ctor es bf hc ia ids (Suc idx + j) (rest ! j) = Inr (us ! j)))
          \<longleftrightarrow>
          (\<exists>us. r = fs @ us \<and> length us = length (c # rest) \<and>
             (\<forall>j<length (c # rest).
                merge_case ctor es bf hc ia ids (idx + j) ((c # rest) ! j) = Inr (us ! j)))"
      (is "?L \<longleftrightarrow> ?R")
    proof
      assume ?L
      then obtain us where us: "r = (fs @ [u]) @ us" "length us = length rest"
        "\<forall>j<length rest. merge_case ctor es bf hc ia ids (Suc idx + j) (rest ! j) = Inr (us ! j)"
        by blast
      have "\<forall>j<length (c # rest).
              merge_case ctor es bf hc ia ids (idx + j) ((c # rest) ! j) = Inr ((u # us) ! j)"
      proof (intro allI impI)
        fix j assume "j < length (c # rest)"
        then show "merge_case ctor es bf hc ia ids (idx + j) ((c # rest) ! j) = Inr ((u # us) ! j)"
          using Inr us(3) by (cases j) auto
      qed
      with us(1,2) show ?R by (intro exI[of _ "u # us"]) simp
    next
      assume ?R
      then obtain us where us: "r = fs @ us" "length us = length (c # rest)"
        "\<forall>j<length (c # rest).
           merge_case ctor es bf hc ia ids (idx + j) ((c # rest) ! j) = Inr (us ! j)"
        by blast
      from us(2) obtain u' us' where c: "us = u' # us'" by (cases us) auto
      from us(3) c Inr have "u' = u" by force
      have "\<forall>j<length rest. merge_case ctor es bf hc ia ids (Suc idx + j) (rest ! j) = Inr (us' ! j)"
      proof (intro allI impI)
        fix j assume "j < length rest"
        then have "Suc j < length (c # rest)" by simp
        with us(3) have
          "merge_case ctor es bf hc ia ids (idx + Suc j) ((c # rest) ! Suc j) = Inr (us ! Suc j)"
          by blast
        with c show "merge_case ctor es bf hc ia ids (Suc idx + j) (rest ! j) = Inr (us' ! j)"
          by simp
      qed
      with us(1,2) c \<open>u' = u\<close> show ?L by (intro exI[of _ us']) simp
    qed
    with Inr Cons.IH[of "Suc idx" "fs @ [u]"] show ?thesis by simp
  qed
qed

lemma generate_units:
  assumes "generate_eval_functions ctor func = Inr us" and "find_marker func = Some block"
  shows "length us = length (case_sets block)"
    and "i < length us \<Longrightarrow>
           merge_case ctor (settings_of func) (base_func_of func) (has_context_of func)
             (fn_is_coroutine (base_func_of func)) (case_ids block) i (case_sets block ! i) =
           Inr (us ! i)"
proof -
  from assms have
    "generate_loop ctor (settings_of func) (base_func_of func) (has_context_of func)
       (fn_is_coroutine (base_func_of func)) (case_ids block) 0 (case_sets block) [] = Inr us"
    by (simp add: generate_eval_functions_def)
  then have *: "length us = length (case_sets block) \<and>
     (\<forall>j<length (case_sets block).
        merge_case ctor (settings_of func) (base_func_of func) (has_context_of func)
          (fn_is_coroutine (base_func_of func)) (case_ids block) (0 + j) (case_sets block ! j) =
        Inr (us ! j))"
    unfolding generate_loop_iff by auto
  then show "length us = length (case_sets block)" by simp
  assume "i < length us"
  with * show "merge_case ctor (settings_of func) (base_func_of func) (has_context_of func)
             (fn_is_coroutine (base_func_of func)) (case_ids block) i (case_sets block ! i) =
           Inr (us ! i)" by simp
qed

text \<open>A unit was made from the merged arguments of its case, and the constructor returned.\<close>

lemma merge_case_Inr:
  assumes "merge_case ctor es bf hc ia ids idx c = Inr u"
  shows "merge_args es bf hc ia ids idx c = Inr (u_args u)" and "ctor (u_args u) = None"
  using assms unfolding merge_case_def Let_def
  by (auto split: sum.splits option.splits)

lemma merge_args_InrE:
  assumes "merge_args es bf hc ia ids idx c = Inr args"
  obtains bl labels md where
    "base_labels_of es = Inr bl"
    "case_labels_of bl c = Inr labels"
    "(if has_key ''metadata'' c
      then merge_metadata (base_kwarg es ''metadata'') (dict_get c ''metadata'')
      else Inr (base_kwarg es ''metadata'')) = Inr md"
    "a_labels args = labels"
    "a_metadata args = md"
  using assms unfolding merge_args_def Let_def
  by (auto split: sum.splits)

lemma merge_case_InrE:
  assumes "merge_case ctor es bf hc ia ids idx c = Inr u"
  obtains bl labels md where
    "base_labels_of es = Inr bl"
    "case_labels_of bl c = Inr labels"
    "(if has_key ''metadata'' c
      then merge_metadata (base_kwarg es ''metadata'') (dict_get c ''metadata'')
      else Inr (base_kwarg es ''metadata'')) = Inr md"
    "a_labels (u_args u) = labels"
    "a_metadata (u_args u) = md"
  using merge_args_InrE[OF merge_case_Inr(1)[OF assms]] by metis



lemma merge_args_name:
  assumes "merge_args es bf hc ia ids idx c = Inr args"
  shows "w_name (a_func args) =
           func_name_of (fn_name bf) (if ids \<noteq> [] \<and> idx < length ids then ids ! idx else None) idx"
  using assms unfolding merge_args_def Let_def
  by (auto split: sum.splits)

text \<open>A function without a case table carries, after \<^verbatim>\<open>apply_cases\<close>, the normalised block.\<close>

lemma apply_cases_marks:
  assumes "apply_cases repr func (VList cs) = Inr func'" and "find_marker func = None"
  shows "\<exists>block. normalize_cases repr (VList cs) = Inr (Some block) \<and>
           find_marker func' = Some block"
proof -
  from assms(1) obtain block where
    n: "normalize_cases repr (VList cs) = Inr (Some block)" and f: "func' = set_marker block func"
    by (auto simp: apply_cases_def normalize_cases_def split: sum.splits)
  from assms(2) have "find_marker (set_marker block func) = Some block"
    by (cases func) (auto simp: find_marker_def set_marker_def split: option.splits)
  with n f show ?thesis by simp
qed

section \<open>Labels\<close>

lemma py_eq_list_Nil: "py_eq_list xs [] \<longleftrightarrow> xs = []"
  by (cases xs) simp_all

lemma py_eq_empty_list: "py_eq v (VList []) \<longleftrightarrow> v = VList []"
  by (cases v) (auto simp: py_eq_list_Nil)

lemma case_labels_of_cases:
  assumes "case_labels_of bl c = Inr labels"
  shows "\<not> has_key ''labels'' c \<Longrightarrow> labels = bl"
    and "has_key ''labels'' c \<Longrightarrow> dict_get c ''labels'' = VNone \<or> dict_get c ''labels'' = VList []
           \<Longrightarrow> labels = []"
    and "has_key ''labels'' c \<Longrightarrow> dict_get c ''labels'' = VList ov \<Longrightarrow> ov \<noteq> []
           \<Longrightarrow> labels = bl @ filter (\<lambda>l. \<not> py_in l bl) ov"
  using assms
  by (auto simp: case_labels_of_def Let_def py_eq_empty_list merge_labels_def split: if_splits)

text \<open>
  C2, as the code has it. Let \<open>bl\<close> be the base labels: the list of the labels of the
  settings, empty when they are \<^verbatim>\<open>None\<close> or empty and for a plain function. Every unit that
  \<^verbatim>\<open>generate_eval_functions\<close> returns was made with these labels: \<open>bl\<close> when the case has no key
  \<^verbatim>\<open>labels\<close>; the empty list when the value under the key is \<^verbatim>\<open>None\<close> or the empty list; and when
  the value is a non-empty list, \<open>bl\<close> followed by the entries of that list that are equal to no
  entry of \<open>bl\<close>, in their order and as often as the list repeats them.
\<close>

theorem labels_merge:
  assumes "generate_eval_functions ctor func = Inr us"
    and "find_marker func = Some block"
    and "i < length us"
  shows "\<exists>bl. base_labels_of (settings_of func) = Inr bl \<and>
           (if has_key ''labels'' (case_sets block ! i)
            then (case dict_get (case_sets block ! i) ''labels'' of
                    VNone \<Rightarrow> a_labels (u_args (us ! i)) = []
                  | VList ov \<Rightarrow>
                      a_labels (u_args (us ! i)) =
                        (if ov = [] then [] else bl @ filter (\<lambda>l. \<not> py_in l bl) ov)
                  | _ \<Rightarrow> True)
            else a_labels (u_args (us ! i)) = bl)"
proof -
  from generate_units(2)[OF assms] obtain bl labels where
    bl: "base_labels_of (settings_of func) = Inr bl"
    and cl: "case_labels_of bl (case_sets block ! i) = Inr labels"
    and u: "a_labels (u_args (us ! i)) = labels"
    by (rule merge_case_InrE)
  have "if has_key ''labels'' (case_sets block ! i)
        then (case dict_get (case_sets block ! i) ''labels'' of
                VNone \<Rightarrow> a_labels (u_args (us ! i)) = []
              | VList ov \<Rightarrow>
                  a_labels (u_args (us ! i)) =
                    (if ov = [] then [] else bl @ filter (\<lambda>l. \<not> py_in l bl) ov)
              | _ \<Rightarrow> True)
        else a_labels (u_args (us ! i)) = bl"
    using case_labels_of_cases[OF cl] u
    by (auto split: pyval.splits)
  with bl show ?thesis by blast
qed

theorem labels_merge_witness:
  "generate_eval_functions accepts_all ex_func = Inr ex_units \<and>
   find_marker ex_func = Some ex_block \<and>
   base_labels_of (settings_of ex_func) = Inr [VStr ''prod''] \<and>
   a_labels (u_args (ex_units ! 0)) = [VStr ''prod''] \<and>
   a_labels (u_args (ex_units ! 1)) = [] \<and>
   a_labels (u_args (ex_units ! 2)) = [VStr ''prod'', VStr ''y'']"
proof -
  have l: "0 < length ex_units" "1 < length ex_units" "2 < length ex_units"
    by (simp_all add: ex_units_def)
  have b: "base_labels_of (settings_of ex_func) = Inr [VStr ''prod'']"
    by code_simp
  have c: "case_sets ex_block ! 0 = [(''input'', VStr ''x'')]"
          "case_sets ex_block ! 1 =
             [(''labels'', VList []), (''input'', VStr ''y''), (''metadata'', VDict [(''k'', VInt 1)])]"
          "case_sets ex_block ! 2 =
              [(''labels'', VList [VStr ''prod'', VStr ''y'']), (''timeout'', VNone)]"
    by (simp_all add: ex_block_def)
  have p: "py_in (VStr ''prod'') [VStr ''prod'']" "\<not> py_in (VStr ''y'') [VStr ''prod'']"
    by (simp_all add: py_in_def)
  from labels_merge[OF ex_generate ex_find_marker l(1)]
       labels_merge[OF ex_generate ex_find_marker l(2)]
       labels_merge[OF ex_generate ex_find_marker l(3)]
  show ?thesis
    unfolding c b
    by (simp add: ex_generate ex_find_marker has_key_def dict_get_def p)
qed

theorem labels_merge_keeps_repetitions:
  "apply_cases no_repr (Decorated prod_settings)
     (VList [VDict [(''labels'', VList [VStr ''x'', VStr ''x''])]]) =
     Inr (Decorated (prod_settings
            \<lparr>es_marker := Some \<lparr>case_sets = [[(''labels'', VList [VStr ''x'', VStr ''x''])]],
                                case_ids = [None]\<rparr>\<rparr>)) \<and>
   unit_labels (generate_eval_functions accepts_all (Decorated (prod_settings
            \<lparr>es_marker := Some \<lparr>case_sets = [[(''labels'', VList [VStr ''x'', VStr ''x''])]],
                                case_ids = [None]\<rparr>\<rparr>))) =
     Inr [[VStr ''prod'', VStr ''x'', VStr ''x'']] \<and>
   \<not> distinct [VStr ''prod'', VStr ''x'', VStr ''x'']"
  by code_simp

section \<open>Metadata\<close>

lemma dict_update_Nil [simp]: "dict_update m [] = m"
  by (simp add: dict_update_def)

lemma dict_update_Cons: "dict_update m ((k, v) # other) = dict_update (AList.update k v m) other"
  by (simp add: dict_update_def)

lemma map_of_dict_update:
  "distinct (map fst other) \<Longrightarrow> map_of (dict_update m other) = map_of m ++ map_of other"
proof (induction other arbitrary: m)
  case Nil
  then show ?case by simp
next
  case (Cons kv other)
  obtain k v where kv: "kv = (k, v)" by (cases kv)
  from Cons.prems kv have k: "k \<notin> fst ` set other" and d: "distinct (map fst other)" by auto
  from k have n: "map_of other k = None" by (simp add: map_of_eq_None_iff)
  have "map_of (dict_update m (kv # other)) = map_of (AList.update k v m) ++ map_of other"
    using Cons.IH[OF d, of "AList.update k v m"] kv
    by (simp add: dict_update_Cons)
  also have "\<dots> = map_of m ++ map_of (kv # other)"
    using n kv by (auto simp: fun_eq_iff map_add_def AList.update_conv' split: option.splits)
  finally show ?case .
qed

lemma merge_metadata_dicts:
  assumes "none_or_dict base"
  shows "merge_metadata base (VDict ov) =
           Inr (if dict_update (dict_update [] (entries_of base)) ov = [] then VNone
                else VDict (dict_update (dict_update [] (entries_of base)) ov))"
  using assms
  by (cases base) (auto simp: merge_metadata_def none_or_dict_def entries_of_def)

text \<open>
  C3, as the code has it. Every unit that \<^verbatim>\<open>generate_eval_functions\<close> returns was made with this
  metadata: the base metadata when the case has no key \<^verbatim>\<open>metadata\<close>, and \<^verbatim>\<open>None\<close> when the value
  under the key is \<^verbatim>\<open>None\<close>. When the value is a mapping and the base metadata is \<^verbatim>\<open>None\<close> or a mapping, the
  entries of the base are written into an empty dictionary and the entries of the override
  over them: a dictionary that maps a key as the override does, and as the base does where
  the override has no such key. The metadata is this dictionary, or \<^verbatim>\<open>None\<close> when it is empty.
\<close>

theorem metadata_merge:
  assumes "generate_eval_functions ctor func = Inr us"
    and "find_marker func = Some block"
    and "i < length us"
  shows "if has_key ''metadata'' (case_sets block ! i)
         then (case dict_get (case_sets block ! i) ''metadata'' of
                 VNone \<Rightarrow> a_metadata (u_args (us ! i)) = VNone
               | VDict ov \<Rightarrow>
                   none_or_dict (base_kwarg (settings_of func) ''metadata'') \<longrightarrow>
                   a_metadata (u_args (us ! i)) =
                     (if dict_update (dict_update [] (entries_of (base_kwarg (settings_of func) ''metadata''))) ov = []
                      then VNone
                      else VDict (dict_update (dict_update [] (entries_of (base_kwarg (settings_of func) ''metadata''))) ov)) \<and>
                   (distinct (map fst (entries_of (base_kwarg (settings_of func) ''metadata''))) \<and>
                    distinct (map fst ov) \<longrightarrow>
                    map_of (dict_update (dict_update [] (entries_of (base_kwarg (settings_of func) ''metadata''))) ov) =
                      map_of (entries_of (base_kwarg (settings_of func) ''metadata'')) ++ map_of ov)
               | _ \<Rightarrow> True)
         else a_metadata (u_args (us ! i)) = base_kwarg (settings_of func) ''metadata''"
proof -
  from generate_units(2)[OF assms] obtain md where
    md: "(if has_key ''metadata'' (case_sets block ! i)
          then merge_metadata (base_kwarg (settings_of func) ''metadata'')
                 (dict_get (case_sets block ! i) ''metadata'')
          else Inr (base_kwarg (settings_of func) ''metadata'')) = Inr md"
    and u: "a_metadata (u_args (us ! i)) = md"
    by (rule merge_case_InrE)
  have m: "distinct (map fst bd) \<Longrightarrow> distinct (map fst ov) \<Longrightarrow>
           map_of (dict_update (dict_update [] bd) ov) = map_of bd ++ map_of ov" for bd ov
    by (simp add: map_of_dict_update)
  show ?thesis
  proof (cases "has_key ''metadata'' (case_sets block ! i)")
    case False
    with md u show ?thesis by simp
  next
    case True
    show ?thesis
    proof (cases "dict_get (case_sets block ! i) ''metadata''")
      case VNone
      with True md u show ?thesis by (simp add: merge_metadata_def)
    next
      case (VDict ov)
      with True md u m show ?thesis
        by (auto simp: merge_metadata_dicts simp del: dict_update_Nil)
    qed (use True in simp_all)
  qed
qed

theorem metadata_merge_witness:
  "generate_eval_functions accepts_all ex_func = Inr ex_units \<and>
   find_marker ex_func = Some ex_block \<and>
   base_kwarg (settings_of ex_func) ''metadata'' = VDict [(''j'', VInt 0)] \<and>
   a_metadata (u_args (ex_units ! 0)) = VDict [(''j'', VInt 0)] \<and>
   a_metadata (u_args (ex_units ! 1)) = VDict [(''j'', VInt 0), (''k'', VInt 1)] \<and>
   map_of [(''j'', VInt 0), (''k'', VInt 1)] = map_of [(''j'', VInt 0)] ++ map_of [(''k'', VInt 1)]"
proof -
  have l: "0 < length ex_units" "1 < length ex_units"
    by (simp_all add: ex_units_def)
  have b: "base_kwarg (settings_of ex_func) ''metadata'' = VDict [(''j'', VInt 0)]"
    by code_simp
  have c: "case_sets ex_block ! 0 = [(''input'', VStr ''x'')]"
          "case_sets ex_block ! 1 =
             [(''labels'', VList []), (''input'', VStr ''y''), (''metadata'', VDict [(''k'', VInt 1)])]"
    by (simp_all add: ex_block_def)
  have d: "dict_update (dict_update [] [(''j'', VInt 0)]) [(''k'', VInt 1)] =
             [(''j'', VInt 0), (''k'', VInt 1)]"
    by code_simp
  from metadata_merge[OF ex_generate ex_find_marker l(1)]
       metadata_merge[OF ex_generate ex_find_marker l(2)]
  show ?thesis
    unfolding c b
    by (simp add: ex_generate ex_find_marker has_key_def dict_get_def none_or_dict_def
          entries_of_def d del: dict_update_Nil)
qed

theorem metadata_merge_empty_is_none:
  "apply_cases no_repr (Raw plain_f) (VList [VDict [(''metadata'', VDict [])]]) =
     Inr (Raw (plain_f\<lparr>fn_marker := Some \<lparr>case_sets = [[(''metadata'', VDict [])]],
                                           case_ids = [None]\<rparr>\<rparr>)) \<and>
   unit_metadata (generate_eval_functions accepts_all
     (Raw (plain_f\<lparr>fn_marker := Some \<lparr>case_sets = [[(''metadata'', VDict [])]],
                                      case_ids = [None]\<rparr>\<rparr>))) = Inr [VNone] \<and>
   VNone \<noteq> VDict (dict_update (dict_update [] []) [])"
  by code_simp

section \<open>Simple fields: the key decides\<close>




section \<open>Number and order of the units\<close>

lemma base_labels_of_typed:
  assumes "typed_settings es"
  shows "\<exists>bl. base_labels_of es = Inr bl"
proof (cases es)
  case None
  then show ?thesis by (simp add: base_labels_of_def)
next
  case (Some e)
  with assms have "none_or_list (es_labels e)" by (simp add: typed_settings_def)
  with Some show ?thesis
    by (cases "es_labels e") (simp_all add: base_labels_of_def none_or_list_def)
qed

lemma case_labels_of_typed:
  assumes "none_or_list (dict_get c ''labels'')"
  shows "\<exists>labels. case_labels_of bl c = Inr labels"
  using assms
  by (cases "dict_get c ''labels''")
     (simp_all add: case_labels_of_def none_or_list_def Let_def py_eq_list_Nil)

lemma merge_metadata_typed:
  assumes "none_or_dict base" and "none_or_dict v"
  shows "\<exists>md. merge_metadata base v = Inr md"
proof (cases v)
  case VNone
  then show ?thesis by (simp add: merge_metadata_def)
next
  case (VDict ov)
  with merge_metadata_dicts[OF assms(1), of ov] show ?thesis by simp
qed (use assms(2) in \<open>simp_all add: none_or_dict_def\<close>)

lemma base_metadata_typed:
  "typed_settings es \<Longrightarrow> none_or_dict (base_kwarg es ''metadata'')"
  by (cases es) (simp_all add: typed_settings_def base_kwarg_def none_or_dict_def)

lemma merge_args_typed:
  assumes "typed_settings es" and "typed_case c"
  shows "\<exists>args. merge_args es bf hc ia ids idx c = Inr args"
proof -
  from base_labels_of_typed[OF assms(1)] obtain bl where bl: "base_labels_of es = Inr bl" ..
  from assms(2) have "none_or_list (dict_get c ''labels'')" by (simp add: typed_case_def)
  from case_labels_of_typed[OF this] obtain labels where
    labels: "case_labels_of bl c = Inr labels" ..
  from assms(2) have "none_or_dict (dict_get c ''metadata'')" by (simp add: typed_case_def)
  from merge_metadata_typed[OF base_metadata_typed[OF assms(1)] this] obtain md where
    md: "merge_metadata (base_kwarg es ''metadata'') (dict_get c ''metadata'') = Inr md" ..
  show ?thesis
    unfolding merge_args_def Let_def
    by (simp add: bl labels md)
qed

text \<open>
  Generation returns exactly when the body of the loop returns for every case taken alone:
  no condition ties one case to another.
\<close>

lemma generate_returns_iff:
  assumes "find_marker func = Some block"
  shows "(\<exists>us. generate_eval_functions ctor func = Inr us) \<longleftrightarrow>
         (\<forall>i<length (case_sets block). \<exists>u.
            merge_case ctor (settings_of func) (base_func_of func) (has_context_of func)
              (fn_is_coroutine (base_func_of func)) (case_ids block) i (case_sets block ! i) =
            Inr u)"
    (is "?L \<longleftrightarrow> ?R")
proof
  assume ?L
  then obtain us where us: "generate_eval_functions ctor func = Inr us" ..
  from generate_units[OF us assms] show ?R by auto
next
  assume r: ?R
  let ?m = "\<lambda>i. merge_case ctor (settings_of func) (base_func_of func) (has_context_of func)
              (fn_is_coroutine (base_func_of func)) (case_ids block) i (case_sets block ! i)"
  from r have "\<forall>i. \<exists>u. i < length (case_sets block) \<longrightarrow> ?m i = Inr u" by blast
  then obtain f where f: "\<forall>i. i < length (case_sets block) \<longrightarrow> ?m i = Inr (f i)"
    by metis
  let ?us = "map f [0..<length (case_sets block)]"
  have "length ?us = length (case_sets block) \<and>
        (\<forall>j<length (case_sets block). ?m (0 + j) = Inr (?us ! j))"
    using f by simp
  then have "generate_loop ctor (settings_of func) (base_func_of func) (has_context_of func)
               (fn_is_coroutine (base_func_of func)) (case_ids block) 0 (case_sets block) [] =
             Inr ?us"
    unfolding generate_loop_iff by (intro exI[of _ ?us]) simp
  with assms show ?L by (simp add: generate_eval_functions_def)
qed

lemma typed_case_delete_id: "typed_case (AList.delete ''id'' d) = typed_case d"
  by (simp add: typed_case_def dict_get_def)

text \<open>
  C5, as the code has it. Take a declaration of \<open>n\<close> elements that normalises to a block and a
  function that carries this block. Let the values under \<^verbatim>\<open>labels\<close> be \<^verbatim>\<open>None\<close> or lists and the
  values under \<^verbatim>\<open>metadata\<close> be \<^verbatim>\<open>None\<close> or dictionaries, in the cases and in the base settings, and
  let the constructor of \<^verbatim>\<open>EvalFunction\<close> raise on none of the merged arguments of the cases.
  Then \<^verbatim>\<open>generate_eval_functions\<close> returns \<open>n\<close> units, and the unit at position \<open>i\<close> is the one made
  from the element at position \<open>i\<close> of the declaration (less its \<^verbatim>\<open>id\<close>) at index \<open>i\<close>.
\<close>

theorem expansion_length_and_order:
  assumes "normalize_cases repr (VList cs) = Inr (Some block)"
    and "find_marker func = Some block"
    and "typed_settings (settings_of func)"
    and "\<forall>d. VDict d \<in> set cs \<longrightarrow> typed_case d"
    and "\<forall>i<length cs. \<forall>args.
           merge_args (settings_of func) (base_func_of func) (has_context_of func)
             (fn_is_coroutine (base_func_of func)) (case_ids block) i (case_sets block ! i) =
           Inr args \<longrightarrow> ctor args = None"
  shows "\<exists>us. generate_eval_functions ctor func = Inr us \<and> length us = length cs \<and>
           (\<forall>i<length cs. \<exists>d. cs ! i = VDict d \<and>
              merge_case ctor (settings_of func) (base_func_of func) (has_context_of func)
                (fn_is_coroutine (base_func_of func)) (case_ids block) i (AList.delete ''id'' d) =
              Inr (us ! i))"
proof -
  from normalize_cases_Some[OF assms(1)] obtain ds where
    ds: "cs = map VDict ds" "case_sets block = map (AList.delete ''id'') ds"
    by blast
  have len: "length (case_sets block) = length cs" using ds by simp
  have "\<exists>u. merge_case ctor (settings_of func) (base_func_of func) (has_context_of func)
              (fn_is_coroutine (base_func_of func)) (case_ids block) i (case_sets block ! i) =
            Inr u" if i: "i < length (case_sets block)" for i
  proof -
    from i ds assms(4) have "typed_case (case_sets block ! i)"
      by (auto simp: typed_case_delete_id)
    from merge_args_typed[OF assms(3) this] obtain args where
      a: "merge_args (settings_of func) (base_func_of func) (has_context_of func)
            (fn_is_coroutine (base_func_of func)) (case_ids block) i (case_sets block ! i) =
          Inr args" ..
    with assms(5) i len have "ctor args = None" by simp
    with a show ?thesis by (simp add: merge_case_def Let_def)
  qed
  with generate_returns_iff[OF assms(2), of ctor] obtain us where
    us: "generate_eval_functions ctor func = Inr us" by blast
  from generate_units(1)[OF us assms(2)] len have l: "length us = length cs" by simp
  have "\<exists>d. cs ! i = VDict d \<and>
          merge_case ctor (settings_of func) (base_func_of func) (has_context_of func)
            (fn_is_coroutine (base_func_of func)) (case_ids block) i (AList.delete ''id'' d) =
          Inr (us ! i)" if i: "i < length cs" for i
  proof -
    from i l have "i < length us" by simp
    from generate_units(2)[OF us assms(2) this] i ds show ?thesis by simp
  qed
  with us l show ?thesis by blast
qed

theorem expansion_length_and_order_witness:
  "normalize_cases no_repr (VList (map VDict ex_cases)) = Inr (Some ex_block) \<and>
   find_marker ex_func = Some ex_block \<and>
   generate_eval_functions accepts_all ex_func = Inr ex_units \<and>
   length ex_units = length (map VDict ex_cases) \<and>
   merge_case accepts_all (settings_of ex_func) (base_func_of ex_func) (has_context_of ex_func)
     (fn_is_coroutine (base_func_of ex_func)) (case_ids ex_block) 2
     (AList.delete ''id'' (ex_cases ! 2)) = Inr (ex_units ! 2)"
proof -
  have t: "typed_settings (settings_of ex_func)"
    by code_simp
  have c: "\<forall>d. VDict d \<in> set (map VDict ex_cases) \<longrightarrow> typed_case d"
    by (auto simp: ex_cases_def typed_case_def dict_get_def none_or_list_def none_or_dict_def)
  have a: "\<forall>i<length (map VDict ex_cases). \<forall>args.
             merge_args (settings_of ex_func) (base_func_of ex_func) (has_context_of ex_func)
               (fn_is_coroutine (base_func_of ex_func)) (case_ids ex_block) i
               (case_sets ex_block ! i) = Inr args \<longrightarrow> accepts_all args = None"
    by (simp add: accepts_all_def)
  from expansion_length_and_order[OF ex_normalize_cases ex_find_marker t c a]
  obtain us where us: "generate_eval_functions accepts_all ex_func = Inr us"
    and len: "length us = length (map VDict ex_cases)"
    and ord: "\<forall>i<length (map VDict ex_cases). \<exists>d. map VDict ex_cases ! i = VDict d \<and>
              merge_case accepts_all (settings_of ex_func) (base_func_of ex_func)
                (has_context_of ex_func) (fn_is_coroutine (base_func_of ex_func))
                (case_ids ex_block) i (AList.delete ''id'' d) = Inr (us ! i)"
    by blast
  from us have e: "us = ex_units" by (simp add: ex_generate)
  have "2 < length (map VDict ex_cases)" by (simp add: ex_cases_def)
  with ord obtain d where "map VDict ex_cases ! 2 = VDict d"
    "merge_case accepts_all (settings_of ex_func) (base_func_of ex_func) (has_context_of ex_func)
       (fn_is_coroutine (base_func_of ex_func)) (case_ids ex_block) 2
       (AList.delete ''id'' d) = Inr (us ! 2)"
    by blast
  moreover have "map VDict ex_cases ! 2 = VDict (ex_cases ! 2)" by (simp add: ex_cases_def)
  ultimately have
    "merge_case accepts_all (settings_of ex_func) (base_func_of ex_func) (has_context_of ex_func)
       (fn_is_coroutine (base_func_of ex_func)) (case_ids ex_block) 2
       (AList.delete ''id'' (ex_cases ! 2)) = Inr (ex_units ! 2)"
    using e by simp
  with len e show ?thesis by (simp add: ex_normalize_cases ex_find_marker ex_generate)
qed

theorem expansion_fails_on_untyped_labels:
  "normalize_cases no_repr (VList [VDict [(''labels'', VInt 5)]]) =
     Inr (Some \<lparr>case_sets = [[(''labels'', VInt 5)]], case_ids = [None]\<rparr>) \<and>
   apply_cases no_repr (Raw plain_f) (VList [VDict [(''labels'', VInt 5)]]) =
     Inr (Raw (plain_f\<lparr>fn_marker := Some \<lparr>case_sets = [[(''labels'', VInt 5)]],
                                           case_ids = [None]\<rparr>\<rparr>)) \<and>
   generate_eval_functions accepts_all
     (Raw (plain_f\<lparr>fn_marker := Some \<lparr>case_sets = [[(''labels'', VInt 5)]],
                                      case_ids = [None]\<rparr>\<rparr>)) = Inl TypeError"
  by code_simp

section \<open>Display names\<close>

lemma func_name_of_stringify:
  "func_name_of base (stringify_id repr v) i =
     base @ ''['' @ (if v \<noteq> VNone \<and> py_str repr v \<noteq> [] then py_str repr v else show_nat i) @ '']''"
  by (simp add: func_name_of_def stringify_id_def)

text \<open>
  C6, as the code has it. Take a declaration that normalises to a block and a function that
  carries this block. In whatever \<^verbatim>\<open>generate_eval_functions\<close> returns there is one unit for each
  element of the declaration, and the wrapper of the unit at position \<open>i\<close> is named
  \<^verbatim>\<open><base-name>[<id-or-index>]\<close>: the string of the element's \<^verbatim>\<open>id\<close> when the element has an \<^verbatim>\<open>id\<close> that
  is not \<^verbatim>\<open>None\<close> and whose string is not empty, and the decimal digits of \<open>i\<close> otherwise.
  Generation compares no names: it returns whenever the body of the loop returns for each
  case taken alone, so equal names do not make it fail.
\<close>

theorem display_names:
  assumes "normalize_cases repr (VList cs) = Inr (Some block)"
    and "find_marker func = Some block"
  shows "(\<forall>us. generate_eval_functions ctor func = Inr us \<longrightarrow>
            length us = length cs \<and>
            (\<forall>i<length cs. \<exists>d. cs ! i = VDict d \<and>
               w_name (a_func (u_args (us ! i))) =
                 fn_name (case func of Decorated es \<Rightarrow> es_func es | Raw f \<Rightarrow> f) @ ''['' @
                   (if dict_get d ''id'' \<noteq> VNone \<and> py_str repr (dict_get d ''id'') \<noteq> []
                    then py_str repr (dict_get d ''id'') else show_nat i) @ '']'')) \<and>
         ((\<forall>i<length cs. \<exists>u.
             merge_case ctor (settings_of func) (base_func_of func) (has_context_of func)
               (fn_is_coroutine (base_func_of func)) (case_ids block) i (case_sets block ! i) =
             Inr u) \<longrightarrow>
          (\<exists>us. generate_eval_functions ctor func = Inr us))"
proof -
  from normalize_cases_Some[OF assms(1)] obtain ds where
    ds: "cs = map VDict ds" "case_sets block = map (AList.delete ''id'') ds"
      "case_ids block = map (\<lambda>d. stringify_id repr (dict_get d ''id'')) ds"
    by blast
  have len: "length (case_sets block) = length cs" using ds by simp
  have b: "base_func_of func = (case func of Decorated es \<Rightarrow> es_func es | Raw f \<Rightarrow> f)"
    by (simp add: base_func_of_def)
  have "length us = length cs \<and>
        (\<forall>i<length cs. \<exists>d. cs ! i = VDict d \<and>
           w_name (a_func (u_args (us ! i))) =
             fn_name (case func of Decorated es \<Rightarrow> es_func es | Raw f \<Rightarrow> f) @ ''['' @
               (if dict_get d ''id'' \<noteq> VNone \<and> py_str repr (dict_get d ''id'') \<noteq> []
                then py_str repr (dict_get d ''id'') else show_nat i) @ '']'')"
    if us: "generate_eval_functions ctor func = Inr us" for us
  proof -
    from generate_units(1)[OF us assms(2)] len have l: "length us = length cs" by simp
    have "\<exists>d. cs ! i = VDict d \<and>
            w_name (a_func (u_args (us ! i))) =
              fn_name (case func of Decorated es \<Rightarrow> es_func es | Raw f \<Rightarrow> f) @ ''['' @
                (if dict_get d ''id'' \<noteq> VNone \<and> py_str repr (dict_get d ''id'') \<noteq> []
                 then py_str repr (dict_get d ''id'') else show_nat i) @ '']''"
      if i: "i < length cs" for i
    proof -
      from i l have "i < length us" by simp
      from merge_args_name[OF merge_case_Inr(1)[OF generate_units(2)[OF us assms(2) this]]] i ds
      have "w_name (a_func (u_args (us ! i))) =
              func_name_of (fn_name (base_func_of func))
                (stringify_id repr (dict_get (ds ! i) ''id'')) i"
        by auto
      with i ds(1) show ?thesis by (simp add: func_name_of_stringify b)
    qed
    with l show ?thesis by blast
  qed
  moreover have
    "(\<forall>i<length cs. \<exists>u.
        merge_case ctor (settings_of func) (base_func_of func) (has_context_of func)
          (fn_is_coroutine (base_func_of func)) (case_ids block) i (case_sets block ! i) =
        Inr u) \<longrightarrow>
     (\<exists>us. generate_eval_functions ctor func = Inr us)"
    using generate_returns_iff[OF assms(2), of ctor] len by simp
  ultimately show ?thesis by blast
qed

theorem display_names_witness:
  "normalize_cases no_repr (VList [VDict [(''id'', VInt 1)], VDict []]) =
     Inr (Some \<lparr>case_sets = [[], []], case_ids = [Some ''1'', None]\<rparr>) \<and>
   unit_names (generate_eval_functions accepts_all
     (Raw (plain_f\<lparr>fn_marker := Some \<lparr>case_sets = [[], []], case_ids = [Some ''1'', None]\<rparr>\<rparr>))) =
     Inr [''f[1]'', ''f[1]'']"
proof -
  let ?block = "\<lparr>case_sets = [[], []], case_ids = [Some ''1'', None]\<rparr>"
  let ?func = "Raw (plain_f\<lparr>fn_marker := Some ?block\<rparr>)"
  have n: "normalize_cases no_repr (VList [VDict [(''id'', VInt 1)], VDict []]) = Inr (Some ?block)"
    by code_simp
  have m: "find_marker ?func = Some ?block"
    by (simp add: find_marker_def)
  note d = display_names[OF n m, of accepts_all]
  have "\<exists>u. merge_case accepts_all (settings_of ?func) (base_func_of ?func) (has_context_of ?func)
              (fn_is_coroutine (base_func_of ?func)) (case_ids ?block) i (case_sets ?block ! i) =
            Inr u" if "i < 2" for i
  proof -
    from that have "case_sets ?block ! i = []" by (cases i) (simp_all add: less_Suc_eq)
    then have "typed_case (case_sets ?block ! i)"
      by (simp add: typed_case_def dict_get_def none_or_list_def none_or_dict_def)
    moreover have "typed_settings (settings_of ?func)"
      by (simp add: typed_settings_def settings_of_def)
    ultimately obtain args where
      a: "merge_args (settings_of ?func) (base_func_of ?func) (has_context_of ?func)
            (fn_is_coroutine (base_func_of ?func)) (case_ids ?block) i (case_sets ?block ! i) =
          Inr args"
      using merge_args_typed by blast
    then show ?thesis by (simp add: merge_case_def Let_def accepts_all_def)
  qed
  with d obtain us where us: "generate_eval_functions accepts_all ?func = Inr us"
    by auto
  with d have len: "length us = 2"
    and nm: "\<forall>i<2. \<exists>d. [VDict [(''id'', VInt 1)], VDict []] ! i = VDict d \<and>
              w_name (a_func (u_args (us ! i))) =
                fn_name (case ?func of Decorated es \<Rightarrow> es_func es | Raw f \<Rightarrow> f) @ ''['' @
                  (if dict_get d ''id'' \<noteq> VNone \<and> py_str no_repr (dict_get d ''id'') \<noteq> []
                   then py_str no_repr (dict_get d ''id'') else show_nat i) @ '']''"
    by auto
  from len obtain u0 u1 where u: "us = [u0, u1]"
    by (cases us rule: remdups_adj.cases) auto
  have s: "show_int 1 = ''1''" "show_nat 1 = ''1''" "show_nat (Suc 0) = ''1''" by code_simp+
  from nm[rule_format, of 0] u have "w_name (a_func (u_args u0)) = ''f[1]''"
    by (simp add: dict_get_def plain_f_def s)
  moreover from nm[rule_format, of 1] u have "w_name (a_func (u_args u1)) = ''f[1]''"
    by (simp add: dict_get_def plain_f_def s)
  ultimately show ?thesis using n us u by (simp add: unit_names_def)
qed

theorem display_name_of_empty_id:
  "apply_cases no_repr (Raw plain_f) (VList [VDict [(''id'', VStr '''')]]) =
     Inr (Raw (plain_f\<lparr>fn_marker := Some \<lparr>case_sets = [[]], case_ids = [Some '''']\<rparr>\<rparr>)) \<and>
   unit_names (generate_eval_functions accepts_all
     (Raw (plain_f\<lparr>fn_marker := Some \<lparr>case_sets = [[]], case_ids = [Some '''']\<rparr>\<rparr>))) =
     Inr [''f[0]''] \<and>
   ''f[0]'' \<noteq> ''f'' @ ''['' @ py_str no_repr (VStr '''') @ '']''"
  by code_simp

section \<open>Provenance of labels and evaluators\<close>



section \<open>A function without a case table\<close>

text \<open>
  C8. When neither the base function nor, for a function with settings, the settings object
  carries the attribute \<^verbatim>\<open>__case_sets__\<close>, \<^verbatim>\<open>generate_eval_functions\<close> raises the \<^verbatim>\<open>ValueError\<close> that
  names the function. It returns no list, the empty list included, and builds no wrapper.
\<close>

theorem generate_without_marker_fails:
  assumes "fn_marker (base_func_of func) = None"
    and "case func of Decorated es \<Rightarrow> es_marker es = None | Raw f \<Rightarrow> True"
  shows "generate_eval_functions ctor func =
           Inl (ValueError (''Function '' @ fn_name (base_func_of func) @
                            '' does not have __case_sets__ attribute'')) \<and>
         generate_eval_functions ctor func \<noteq> Inr []"
  using assms
  by (cases func) (simp_all add: generate_eval_functions_def find_marker_def base_func_of_def)

theorem generate_without_marker_fails_witness:
  "fn_marker (base_func_of (Decorated prod_settings)) = None \<and>
   es_marker prod_settings = None \<and>
   generate_eval_functions accepts_all (Decorated prod_settings) =
     Inl (ValueError ''Function f does not have __case_sets__ attribute'') \<and>
   generate_eval_functions accepts_all (Decorated prod_settings) \<noteq> Inr []"
proof -
  have a: "fn_marker (base_func_of (Decorated prod_settings)) = None"
    by (simp add: base_func_of_def prod_settings_def plain_f_def)
  have b: "case Decorated prod_settings of Decorated es \<Rightarrow> es_marker es = None | Raw f \<Rightarrow> True"
    by (simp add: prod_settings_def)
  have n: "fn_name (base_func_of (Decorated prod_settings)) = ''f''"
    by (simp add: base_func_of_def prod_settings_def plain_f_def)
  from generate_without_marker_fails[OF a b] a b show ?thesis
    unfolding n by simp
qed

section \<open>Ambiguous run names\<close>

lemma two_matches:
  assumes "i < j" and "j < length xs" and "P (xs ! i)" and "P (xs ! j)"
  shows "2 \<le> length (filter P xs)"
proof -
  have xs: "xs = take j xs @ xs ! j # drop (Suc j) xs"
    using assms(2) by (simp add: id_take_nth_drop)
  from assms(1,2) have "xs ! i \<in> set (take j xs)"
    by (metis in_set_conv_nth length_take min.absorb2 less_imp_le_nat nth_take)
  with assms(3) have "filter P (take j xs) \<noteq> []"
    by (auto simp: filter_empty_conv)
  then have "1 \<le> length (filter P (take j xs))"
    by (cases "filter P (take j xs)") simp_all
  moreover have "length (filter P xs) =
      length (filter P (take j xs)) + length (filter P (xs ! j # drop (Suc j) xs))"
    by (subst xs) simp
  ultimately show ?thesis using assms(4) by simp
qed

text \<open>
  C9. When two records at different positions of the store belong to the session and have
  the queried run name, \<open>resolve\<close> fails with \<open>AmbiguousNameError\<close> for the session and the
  name, whether the run is required or not; it returns no record.
\<close>

theorem resolve_ambiguous:
  assumes "i < j" and "j < length runs"
    and "session_name (runs ! i) = session" and "run_name (runs ! i) = name"
    and "session_name (runs ! j) = session" and "run_name (runs ! j) = name"
  shows "resolve runs session name True = Inl (AmbiguousNameError session name) \<and>
         resolve runs session name False = Inl (AmbiguousNameError session name)"
proof -
  have "2 \<le> length (matching_runs runs session name)"
    unfolding matching_runs_def
    using two_matches[of i j runs "\<lambda>r. session_name r = session \<and> run_name r = name"] assms
    by simp
  then obtain a b rest where "matching_runs runs session name = a # b # rest"
    by (cases "matching_runs runs session name" rule: remdups_adj.cases) auto
  then show ?thesis by (simp add: resolve_def)
qed

theorem resolve_ambiguous_witness:
  "resolve [\<lparr>run_id = ''run001'', session_name = ''s1'', run_name = ''baseline''\<rparr>,
            \<lparr>run_id = ''run002'', session_name = ''s1'', run_name = ''baseline''\<rparr>]
     ''s1'' ''baseline'' True = Inl (AmbiguousNameError ''s1'' ''baseline'') \<and>
   resolve [\<lparr>run_id = ''run001'', session_name = ''s1'', run_name = ''baseline''\<rparr>,
            \<lparr>run_id = ''run002'', session_name = ''s1'', run_name = ''baseline''\<rparr>]
     ''s1'' ''baseline'' False = Inl (AmbiguousNameError ''s1'' ''baseline'')"
  using resolve_ambiguous
          [of 0 1 "[\<lparr>run_id = ''run001'', session_name = ''s1'', run_name = ''baseline''\<rparr>,
                    \<lparr>run_id = ''run002'', session_name = ''s1'', run_name = ''baseline''\<rparr>]"
              "''s1''" "''baseline''"]
  by simp

section \<open>The caller's objects\<close>

lemma store_pop_id_new:
  "store_pop_id (length s) (s @ [VDict d]) = (dict_get d ''id'', s @ [VDict (AList.delete ''id'' d)])"
  by (simp add: store_pop_id_def)

lemma store_keys_new:
  "store_keys (length s) (s @ [VDict d]) = set (map fst d)"
  by (simp add: store_keys_def)

lemma normalize_loop_st_step:
  assumes "a < length s" and "s ! a = VDict d"
  shows "normalize_loop_st repr idx (a # rest) sets ids s =
           (if unknown_keys (AList.delete ''id'' d) \<noteq> {}
            then (Inl (ValueError (''Unknown case keys: '' @
                    join '', '' (sorted_list_of_set (unknown_keys (AList.delete ''id'' d))))),
                  s @ [VDict (AList.delete ''id'' d)])
            else normalize_loop_st repr (Suc idx) rest (sets @ [length s])
                   (ids @ [stringify_id repr (dict_get d ''id'')])
                   (s @ [VDict (AList.delete ''id'' d)]))"
  using assms
  by (simp add: store_pop_id_new store_keys_new unknown_keys_def Let_def)

lemma normalize_loop_st_other:
  assumes "a < length s" and "\<forall>d. s ! a \<noteq> VDict d"
  shows "normalize_loop_st repr idx (a # rest) sets ids s =
           (Inl (ValueError (''Case '' @ show_nat idx @ '' must be a dict'')), s)"
  using assms by (cases "s ! a") simp_all

lemma normalize_loop_st_dangling:
  assumes "\<not> a < length s"
  shows "normalize_loop_st repr idx (a # rest) sets ids s = (Inl Unmodelled, s)"
  using assms by simp

lemmas normalize_loop_st_Cons = normalize_loop_st.simps(2)
declare normalize_loop_st_Cons [simp del]

lemma normalize_loop_st_frame:
  "take (length s) (snd (normalize_loop_st repr idx refs sets ids s)) = s"
proof (induction refs arbitrary: idx sets ids s)
  case Nil
  then show ?case by simp
next
  case (Cons a rest)
  show ?case
  proof (cases "a < length s")
    case False
    then show ?thesis by (simp add: normalize_loop_st_dangling)
  next
    case True
    show ?thesis
    proof (cases "\<exists>d. s ! a = VDict d")
      case False
      with True show ?thesis by (simp add: normalize_loop_st_other)
    next
      case True
      then obtain d where d: "s ! a = VDict d" ..
      let ?s2 = "s @ [VDict (AList.delete ''id'' d)]"
      show ?thesis
      proof (cases "unknown_keys (AList.delete ''id'' d) \<noteq> {}")
        case True
        with \<open>a < length s\<close> d show ?thesis by (simp add: normalize_loop_st_step)
      next
        case False
        let ?r = "normalize_loop_st repr (Suc idx) rest (sets @ [length s])
                    (ids @ [stringify_id repr (dict_get d ''id'')]) ?s2"
        from Cons.IH[of ?s2] have "take (length ?s2) (snd ?r) = ?s2" .
        then have "take (length s) (take (length ?s2) (snd ?r)) = take (length s) ?s2" by simp
        then have "take (length s) (snd ?r) = s" by (simp add: min_def)
        with False \<open>a < length s\<close> d show ?thesis by (simp add: normalize_loop_st_step)
      qed
    qed
  qed
qed

lemma normalize_loop_st_fresh:
  assumes "normalize_loop_st repr idx refs sets ids s = (Inr (sets', ids'), s')"
    and "\<forall>p\<in>set sets. n \<le> p \<and> p < length s" and "n \<le> length s"
  shows "\<forall>p\<in>set sets'. n \<le> p \<and> p < length s'"
  using assms
proof (induction refs arbitrary: idx sets ids s)
  case Nil
  then show ?case by simp
next
  case (Cons a rest)
  from Cons.prems(1) have a: "a < length s"
    by (cases "a < length s") (simp_all add: normalize_loop_st_dangling)
  from Cons.prems(1) a obtain d where d: "s ! a = VDict d"
    by (cases "\<exists>d. s ! a = VDict d") (auto simp: normalize_loop_st_other)
  from Cons.prems(1) a d have u: "unknown_keys (AList.delete ''id'' d) = {}"
    by (cases "unknown_keys (AList.delete ''id'' d) = {}") (simp_all add: normalize_loop_st_step)
  let ?s2 = "s @ [VDict (AList.delete ''id'' d)]"
  from Cons.prems(1) a d u have
    r: "normalize_loop_st repr (Suc idx) rest (sets @ [length s])
          (ids @ [stringify_id repr (dict_get d ''id'')]) ?s2 = (Inr (sets', ids'), s')"
    by (simp add: normalize_loop_st_step)
  from Cons.prems(2,3) have "\<forall>p\<in>set (sets @ [length s]). n \<le> p \<and> p < length ?s2"
    by auto
  moreover from Cons.prems(3) have "n \<le> length ?s2" by simp
  ultimately show ?case using Cons.IH[OF r] by blast
qed

text \<open>
  C10. Whatever the argument and whether \<^verbatim>\<open>normalize_cases\<close> returns or raises, every object
  that was in the store before the call is in it unchanged after the call: the dictionaries
  of the caller keep all their keys, \<^verbatim>\<open>id\<close> included. The dictionaries of the block it returns
  are objects that did not exist before the call.
\<close>

theorem normalize_cases_keeps_callers_objects:
  "take (length s) (snd (normalize_cases_st repr cases s)) = s \<and>
   (case fst (normalize_cases_st repr cases s) of
      Inr (Some block) \<Rightarrow>
        \<forall>p\<in>set (fst block). length s \<le> p \<and> p < length (snd (normalize_cases_st repr cases s))
    | _ \<Rightarrow> True)"
proof (cases cases)
  case NoCases
  then show ?thesis by (simp add: normalize_cases_st_def)
next
  case NotAList
  then show ?thesis by (simp add: normalize_cases_st_def)
next
  case (CaseList refs)
  obtain r s' where r: "normalize_loop_st repr 0 refs [] [] s = (r, s')"
    by (cases "normalize_loop_st repr 0 refs [] [] s")
  from normalize_loop_st_frame[of s repr 0 refs "[]" "[]"] r have f: "take (length s) s' = s"
    by simp
  show ?thesis
  proof (cases r)
    case (Inl e)
    with CaseList r f show ?thesis by (simp add: normalize_cases_st_def)
  next
    case (Inr b)
    obtain sets' ids' where b: "b = (sets', ids')" by (cases b)
    from normalize_loop_st_fresh[OF r[unfolded Inr b], of "length s"]
    have "\<forall>p\<in>set sets'. length s \<le> p \<and> p < length s'" by simp
    with CaseList r f Inr b show ?thesis by (simp add: normalize_cases_st_def)
  qed
qed

theorem normalize_cases_keeps_callers_objects_witness:
  "normalize_cases_st no_repr (CaseList [0, 0]) [VDict [(''id'', VInt 7), (''input'', VStr ''x'')]] =
     (Inr (Some ([1, 2], [Some ''7'', Some ''7''])),
      [VDict [(''id'', VInt 7), (''input'', VStr ''x'')],
       VDict [(''input'', VStr ''x'')], VDict [(''input'', VStr ''x'')]]) \<and>
   take (length [VDict [(''id'', VInt 7), (''input'', VStr ''x'')]])
     [VDict [(''id'', VInt 7), (''input'', VStr ''x'')],
      VDict [(''input'', VStr ''x'')], VDict [(''input'', VStr ''x'')]] =
     [VDict [(''id'', VInt 7), (''input'', VStr ''x'')]] \<and>
   list_all (\<lambda>p. length [VDict [(''id'', VInt 7), (''input'', VStr ''x'')]] \<le> p \<and> p < 3) [1, 2]"
proof -
  have e: "normalize_cases_st no_repr (CaseList [0, 0])
             [VDict [(''id'', VInt 7), (''input'', VStr ''x'')]] =
           (Inr (Some ([1, 2], [Some ''7'', Some ''7''])),
            [VDict [(''id'', VInt 7), (''input'', VStr ''x'')],
             VDict [(''input'', VStr ''x'')], VDict [(''input'', VStr ''x'')]])"
    by code_simp
  from normalize_cases_keeps_callers_objects
         [of "[VDict [(''id'', VInt 7), (''input'', VStr ''x'')]]" no_repr "CaseList [0, 0]"]
  show ?thesis unfolding e by simp
qed

section \<open>The store and the values agree\<close>

lemma normalize_loop_st_refines:
  assumes "\<forall>a\<in>set refs. a < length s" and "\<forall>p\<in>set sets. p < length s"
  shows "(case normalize_loop_st repr idx refs sets ids s of
            (Inl e, s') \<Rightarrow>
              normalize_loop repr idx (map (\<lambda>a. s ! a) refs) (map (\<lambda>p. entries_of (s ! p)) sets) ids = Inl e
          | (Inr b, s') \<Rightarrow>
              normalize_loop repr idx (map (\<lambda>a. s ! a) refs) (map (\<lambda>p. entries_of (s ! p)) sets) ids =
                Inr (block_of s' b))"
  using assms
proof (induction refs arbitrary: idx sets ids s)
  case Nil
  then show ?case by (simp add: block_of_def)
next
  case (Cons a rest)
  from Cons.prems(1) have a: "a < length s" by simp
  show ?case
  proof (cases "\<exists>d. s ! a = VDict d")
    case False
    with a have "normalize_loop_st repr idx (a # rest) sets ids s =
           (Inl (ValueError (''Case '' @ show_nat idx @ '' must be a dict'')), s)"
      by (simp add: normalize_loop_st_other)
    moreover from False have
      "normalize_loop repr idx (map (\<lambda>a. s ! a) (a # rest)) (map (\<lambda>p. entries_of (s ! p)) sets) ids =
         Inl (ValueError (''Case '' @ show_nat idx @ '' must be a dict''))"
      by (cases "s ! a") simp_all
    ultimately show ?thesis by simp
  next
    case True
    then obtain d where d: "s ! a = VDict d" ..
    let ?s2 = "s @ [VDict (AList.delete ''id'' d)]"
    show ?thesis
    proof (cases "unknown_keys (AList.delete ''id'' d) \<noteq> {}")
      case True
      with a d show ?thesis
        by (simp add: normalize_loop_st_step pop_id_def)
    next
      case False
      from Cons.prems(1) have r1: "\<forall>a\<in>set rest. a < length ?s2" by auto
      from Cons.prems(2) have r2: "\<forall>p\<in>set (sets @ [length s]). p < length ?s2" by auto
      have m1: "map (\<lambda>a. ?s2 ! a) rest = map (\<lambda>a. s ! a) rest"
        using Cons.prems(1) by (auto simp: nth_append)
      have m2: "map (\<lambda>p. entries_of (?s2 ! p)) (sets @ [length s]) =
                  map (\<lambda>p. entries_of (s ! p)) sets @ [AList.delete ''id'' d]"
        using Cons.prems(2) by (auto simp: nth_append entries_of_def)
      have step: "normalize_loop repr idx (map (\<lambda>a. s ! a) (a # rest))
                    (map (\<lambda>p. entries_of (s ! p)) sets) ids =
                  normalize_loop repr (Suc idx) (map (\<lambda>a. s ! a) rest)
                    (map (\<lambda>p. entries_of (s ! p)) sets @ [AList.delete ''id'' d])
                    (ids @ [stringify_id repr (dict_get d ''id'')])"
        using False d by (simp add: pop_id_def)
      have st: "normalize_loop_st repr idx (a # rest) sets ids s =
                normalize_loop_st repr (Suc idx) rest (sets @ [length s])
                  (ids @ [stringify_id repr (dict_get d ''id'')]) ?s2"
        using False a d by (simp add: normalize_loop_st_step)
      from Cons.IH[OF r1 r2, of "Suc idx" "ids @ [stringify_id repr (dict_get d ''id'')]"]
      show ?thesis
        unfolding m1 m2 st step .
    qed
  qed
qed

text \<open>
  When the addresses of the list are addresses of the store, the run on the store raises
  what the run on the values raises and returns the block that its addresses stand for.
\<close>

lemma normalize_cases_st_refines:
  assumes "\<forall>a\<in>set refs. a < length s"
  shows "map_sum id (map_option (block_of (snd (normalize_cases_st repr (CaseList refs) s))))
           (fst (normalize_cases_st repr (CaseList refs) s)) =
         normalize_cases repr (VList (map (\<lambda>a. s ! a) refs))"
proof -
  obtain r s' where r: "normalize_loop_st repr 0 refs [] [] s = (r, s')"
    by (cases "normalize_loop_st repr 0 refs [] [] s")
  from normalize_loop_st_refines[OF assms, of "[]" repr 0 "[]"] r
  show ?thesis
    by (cases r) (simp_all add: normalize_cases_st_def normalize_cases_def)
qed

end
